theory Spec2Isabelle
  imports Main "HOL-Library.Char_ord" "HOL-Library.List_Lexorder"
begin

section \<open>Feedback bot: data model\<close>

text \<open>
  The bot of \<^verbatim>\<open>feedback_bot.py\<close> keeps two SQLite tables, talks to Notion and to
  Telegram, and runs three endless loops. The embedding keeps the tables as lists of
  rows in the order of insertion, threads them through every method as explicit state, and records every write to a table and every outbound call
  (with its response) in a trace. An exception of the Python code is a value
  \<open>Inl e\<close>; what was written to the tables before it stays written, as the
  \<^verbatim>\<open>conn.commit()\<close> calls of the source make it.

  A character of the model is a code point below 256, and a string is the list of its
  characters; strings are ordered as SQLite's \<^verbatim>\<open>BINARY\<close> collation orders their UTF-8
  encodings, which is the lexicographic order of the code points. Text with other
  characters is outside the model.
\<close>

datatype exn =
  KeyError | IndexError | ValueError | IntegrityError | OverflowError | UpstreamError

datatype status = Pending | InProgress | Completed

text \<open>
  The \<^verbatim>\<open>answers\<close> column holds the text of a JSON object. It is modelled by the
  members of that object, in the order of the text; the same key may occur twice.
  In memory the dictionary has keys of two Python types: \<^verbatim>\<open>json.loads\<close> yields string
  keys, \<^verbatim>\<open>answers[question_num] = points\<close> adds an integer key.
\<close>

type_synonym json_object = "(string \<times> int) list"

datatype pykey = KStr string | KInt int

type_synonym pydict = "(pykey \<times> int) list"

text \<open>
  A row of \<^verbatim>\<open>questionnaires\<close>. The column \<^verbatim>\<open>created_at\<close> (a wall-clock time stamp that
  nothing reads) is left out. \<^verbatim>\<open>last_message_id\<close> is \<open>None\<close> for SQL NULL.
\<close>

record questionnaire =
  q_chat_id :: string
  q_meeting_id :: string
  q_meeting_name :: string
  q_student_id :: string
  q_status :: status
  q_current_question :: int
  q_answers :: json_object
  q_last_message_id :: "int option"

text \<open>
  A meeting as Notion returns it. Each field stands for one access path of
  \<^verbatim>\<open>process_meeting\<close> into the nested response: \<open>Inl e\<close> when following the path raises
  \<open>e\<close> (a missing key or an empty list), \<open>Inr v\<close> for the value found. \<open>m_chat_id\<close> is
  the result of \<^verbatim>\<open>str(chat_id_array[0]['number'])\<close>.
\<close>

record meeting =
  m_properties :: "exn + unit"
  m_id :: "exn + string"
  m_name :: "exn + string"
  m_mentor :: "exn + string"
  m_student :: "exn + string"
  m_chat_id :: "exn + string"

text \<open>Telegram updates: \<open>None\<close> stands for a key that is missing from the update.\<close>

record callback_query =
  cq_data :: "string option"
  cq_message_id :: "int option"

record message =
  msg_text :: "string option"
  msg_chat_id :: "int option"

datatype update_body = CallbackQuery callback_query | Message message | OtherUpdate

record update =
  update_id :: "int option"
  update_body :: update_body

text \<open>
  Message texts. The five questions and the two fixed phrases are Russian sentences in
  the source; only their identity matters here.
\<close>

datatype question =
  QProductivity | QResponseSpeed | QPlanUnderstanding | QExpertise | QCoordinator

datatype message_text =
    InitialPrompt string string
  | QuestionText question
  | Closing "string option"
  | ChatIdEcho int

datatype label = StartLabel | Stars int

type_synonym keyboard = "(label \<times> string) list"

datatype chat = ChatStr string | ChatNum int

record feedback =
  fb_meeting :: string
  fb_student :: string
  fb_productivity :: int
  fb_response_speed :: int
  fb_plan_understanding :: int
  fb_expertise :: int
  fb_effectiveness :: int
  fb_meeting_name :: string
  fb_chat_id :: string

text \<open>The trace: table writes that were committed, and outbound calls with their responses.\<close>

datatype event =
    DbInsertQuestionnaire string string
  | DbSetLastMessage string string int
  | DbSetStatus string string status int
  | DbSetAnswers string string json_object int
  | DbComplete string string json_object int
  | DbMarkProcessed string
  | NotionQuery "exn + meeting list"
  | NotionPageName string "exn + string"
  | NotionPageMentor string "exn + string"
  | NotionPageSummary string "exn + string option"
  | NotionCreate feedback "exn + unit"
  | NotionPatch string "exn + nat"
  | TgSend chat message_text "keyboard option" "exn + int option"
  | TgEdit string int message_text "keyboard option" "exn + unit"
  | TgDelete string int "exn + bool"
  | TgGetUpdates int "exn + update list"
  | LogError exn

record state =
  questionnaires :: "questionnaire list"
  processed_meetings :: "string list"
  offset :: int
  trace :: "event list"

text \<open>
  The collaborators. Each response may depend on the request and on the moment of the
  call, which is the number of events traced so far; so one \<open>world\<close> describes any
  behaviour of Notion and Telegram over a whole run, failures included.
  \<open>w_send\<close> answers \<open>Inr None\<close> when Telegram's reply has no \<^verbatim>\<open>result.message_id\<close>;
  \<open>w_delete\<close> answers with the \<^verbatim>\<open>ok\<close> flag of the reply; \<open>w_patch\<close> with the HTTP status.
\<close>

record world =
  w_query :: "nat \<Rightarrow> exn + meeting list"
  w_page_name :: "nat \<Rightarrow> string \<Rightarrow> exn + string"
  w_page_mentor :: "nat \<Rightarrow> string \<Rightarrow> exn + string"
  w_page_summary :: "nat \<Rightarrow> string \<Rightarrow> exn + string option"
  w_create :: "nat \<Rightarrow> feedback \<Rightarrow> exn + unit"
  w_patch :: "nat \<Rightarrow> string \<Rightarrow> exn + nat"
  w_send :: "nat \<Rightarrow> chat \<Rightarrow> message_text \<Rightarrow> keyboard option \<Rightarrow> exn + int option"
  w_edit :: "nat \<Rightarrow> string \<Rightarrow> int \<Rightarrow> message_text \<Rightarrow> keyboard option \<Rightarrow> exn + unit"
  w_delete :: "nat \<Rightarrow> string \<Rightarrow> int \<Rightarrow> exn + bool"
  w_updates :: "nat \<Rightarrow> int \<Rightarrow> exn + update list"

section \<open>Methods as state transformers\<close>

type_synonym 'a prog = "state \<Rightarrow> (exn + 'a) \<times> state"

definition ret :: "'a \<Rightarrow> 'a prog" where
  "ret a s = (Inr a, s)"

definition lift :: "exn + 'a \<Rightarrow> 'a prog" where
  "lift r s = (r, s)"

definition andthen :: "'a prog \<Rightarrow> ('a \<Rightarrow> 'b prog) \<Rightarrow> 'b prog" where
  "andthen m f s = (case m s of (Inl e, s') \<Rightarrow> (Inl e, s') | (Inr a, s') \<Rightarrow> f a s')"

definition emit :: "event \<Rightarrow> state \<Rightarrow> state" where
  "emit e s = s\<lparr>trace := trace s @ [e]\<rparr>"

definition call :: "(nat \<Rightarrow> exn + 'a) \<Rightarrow> ((exn + 'a) \<Rightarrow> event) \<Rightarrow> 'a prog" where
  "call respond ev s = (let r = respond (length (trace s)) in (r, emit (ev r) s))"

subsection \<open>Python's strings, lists and dictionaries\<close>

text \<open>
  \<^verbatim>\<open>xs[i]\<close>: an index from \<open>0\<close> counts from the front, one below \<open>0\<close> from the end, and
  one outside both ranges raises.
\<close>

definition py_index :: "'a list \<Rightarrow> int \<Rightarrow> exn + 'a" where
  "py_index xs i =
     (if 0 \<le> i \<and> i < int (length xs) then Inr (xs ! nat i)
      else if i < 0 \<and> - int (length xs) \<le> i then Inr (xs ! nat (int (length xs) + i))
      else Inl IndexError)"

fun split_comma :: "string \<Rightarrow> string list" where
  "split_comma [] = [[]]"
| "split_comma (c # cs) =
     (if c = CHR '','' then [] # split_comma cs
      else (case split_comma cs of [] \<Rightarrow> [[c]] | w # ws \<Rightarrow> (c # w) # ws))"

text \<open>
  White space for \<^verbatim>\<open>str.strip()\<close>: tab to carriage return, the four separators 28 to 31,
  the space, next line (133) and the no-break space (160).
\<close>

definition is_space :: "char \<Rightarrow> bool" where
  "is_space c \<longleftrightarrow>
     (let n = (of_char c :: nat)
      in (9 \<le> n \<and> n \<le> 13) \<or> (28 \<le> n \<and> n \<le> 32) \<or> n = 133 \<or> n = 160)"

definition py_strip :: "string \<Rightarrow> string" where
  "py_strip s = rev (dropWhile is_space (rev (dropWhile is_space s)))"

definition is_digit :: "char \<Rightarrow> bool" where
  "is_digit c \<longleftrightarrow> (let n = (of_char c :: nat) in 48 \<le> n \<and> n \<le> 57)"

definition digit_val :: "char \<Rightarrow> int" where
  "digit_val c = int (of_char c) - 48"

text \<open>
  Decimal digits with single underscores between them, as \<^verbatim>\<open>int()\<close> accepts them;
  \<open>need\<close> says that a digit has to come next.
\<close>

fun dec_digits :: "bool \<Rightarrow> int \<Rightarrow> string \<Rightarrow> int option" where
  "dec_digits need acc [] = (if need then None else Some acc)"
| "dec_digits need acc (c # cs) =
     (if is_digit c then dec_digits False (10 * acc + digit_val c) cs
      else if c = CHR ''_'' \<and> \<not> need then dec_digits True acc cs
      else None)"

text \<open>
  \<^verbatim>\<open>int(s)\<close>: surrounding white space, one optional sign, decimal digits; anything else
  raises \<^verbatim>\<open>ValueError\<close>. The white space that \<^verbatim>\<open>int\<close> skips is not that of
  \<^verbatim>\<open>str.strip()\<close>: the separators 28 to 31 are not skipped. Below 256 the only decimal
  digits are \<^verbatim>\<open>0\<close> to \<^verbatim>\<open>9\<close>. A numeral of more than 4300 digits raises
  \<^verbatim>\<open>ValueError\<close> too (the interpreter's limit since Python 3.11), so every integer that
  \<^verbatim>\<open>int\<close> returns can be printed again by \<^verbatim>\<open>str\<close> and \<^verbatim>\<open>json.dumps\<close>.
\<close>

definition int_space :: "char \<Rightarrow> bool" where
  "int_space c \<longleftrightarrow>
     (let n = (of_char c :: nat) in (9 \<le> n \<and> n \<le> 13) \<or> n = 32 \<or> n = 133 \<or> n = 160)"

definition py_int :: "string \<Rightarrow> exn + int" where
  "py_int s =
     (let t = rev (dropWhile int_space (rev (dropWhile int_space s)));
          r = (case t of
                 [] \<Rightarrow> None
               | c # cs \<Rightarrow>
                   if c = CHR ''-'' then map_option uminus (dec_digits True 0 cs)
                   else if c = CHR ''+'' then dec_digits True 0 cs
                   else dec_digits True 0 t)
      in case r of
           None \<Rightarrow> Inl ValueError
         | Some i \<Rightarrow> if length (filter is_digit t) > 4300 then Inl ValueError else Inr i)"

fun str_nat :: "nat \<Rightarrow> string" where
  "str_nat n =
     (if n < 10 then [''0123456789'' ! n]
      else str_nat (n div 10) @ [''0123456789'' ! (n mod 10)])"

declare str_nat.simps [simp del]

definition str_int :: "int \<Rightarrow> string" where
  "str_int i = (if i < 0 then CHR ''-'' # str_nat (nat (- i)) else str_nat (nat i))"

definition key_str :: "pykey \<Rightarrow> string" where
  "key_str k = (case k of KStr s \<Rightarrow> s | KInt i \<Rightarrow> str_int i)"

fun dict_set :: "pydict \<Rightarrow> pykey \<Rightarrow> int \<Rightarrow> pydict" where
  "dict_set [] k v = [(k, v)]"
| "dict_set ((k', v') # d) k v =
     (if k' = k then (k', v) # d else (k', v') # dict_set d k v)"

definition dict_get :: "pydict \<Rightarrow> pykey \<Rightarrow> int \<Rightarrow> int" where
  "dict_get d k dflt = (case map_of d k of None \<Rightarrow> dflt | Some v \<Rightarrow> v)"

definition json_loads :: "json_object \<Rightarrow> pydict" where
  "json_loads ms = fold (\<lambda>(k, v) d. dict_set d (KStr k) v) ms []"

definition json_dumps :: "pydict \<Rightarrow> json_object" where
  "json_dumps d = map (\<lambda>(k, v). (key_str k, v)) d"

subsection \<open>The two tables\<close>

definition is_meeting_processed :: "string \<Rightarrow> state \<Rightarrow> bool" where
  "is_meeting_processed meeting_id s \<longleftrightarrow> meeting_id \<in> set (processed_meetings s)"

text \<open>\<^verbatim>\<open>meeting_id\<close> is the primary key of \<^verbatim>\<open>processed_meetings\<close>: a second insert raises.\<close>

definition mark_meeting_processed :: "string \<Rightarrow> unit prog" where
  "mark_meeting_processed meeting_id s =
     (if meeting_id \<in> set (processed_meetings s) then (Inl IntegrityError, s)
      else (Inr (), emit (DbMarkProcessed meeting_id)
                      (s\<lparr>processed_meetings := processed_meetings s @ [meeting_id]\<rparr>)))"

text \<open>
  \<^verbatim>\<open>SELECT ... WHERE chat_id = ? AND status = ...\<close> followed by \<^verbatim>\<open>fetchone()\<close>, or with
  \<^verbatim>\<open>LIMIT 1\<close>: SQLite answers the query through the index of the primary key
  \<^verbatim>\<open>(chat_id, meeting_id)\<close>, so the row it returns is, among the rows of the chat with
  that status, the one with the least \<^verbatim>\<open>meeting_id\<close>, whenever it was inserted.
  (The reminder's query, which has no \<^verbatim>\<open>chat_id\<close>, scans the table in the order of
  insertion.)
\<close>

definition select_chat_status ::
  "string \<Rightarrow> status \<Rightarrow> questionnaire list \<Rightarrow> questionnaire option" where
  "select_chat_status chat_id st rows =
     find (\<lambda>r. q_chat_id r = chat_id \<and> q_status r = st) (sort_key q_meeting_id rows)"

definition has_key :: "string \<Rightarrow> string \<Rightarrow> questionnaire \<Rightarrow> bool" where
  "has_key chat_id meeting_id r \<longleftrightarrow> q_chat_id r = chat_id \<and> q_meeting_id r = meeting_id"

text \<open>
  \<^verbatim>\<open>(chat_id, meeting_id)\<close> is the primary key of \<^verbatim>\<open>questionnaires\<close>: inserting a second
  row with the same pair raises and leaves the table as it was.
\<close>

definition save_questionnaire ::
  "string \<Rightarrow> string \<Rightarrow> string \<Rightarrow> string \<Rightarrow> string \<Rightarrow> unit prog" where
  "save_questionnaire chat_id meeting_id meeting_name mentor_name student_id s =
     (if \<exists>r \<in> set (questionnaires s). has_key chat_id meeting_id r then (Inl IntegrityError, s)
      else (Inr (), emit (DbInsertQuestionnaire chat_id meeting_id)
             (s\<lparr>questionnaires := questionnaires s @
                  [\<lparr>q_chat_id = chat_id, q_meeting_id = meeting_id,
                    q_meeting_name = meeting_name, q_student_id = student_id,
                    q_status = Pending, q_current_question = 0, q_answers = [],
                    q_last_message_id = None\<rparr>]\<rparr>)))"

text \<open>
  \<^verbatim>\<open>UPDATE questionnaires SET ... WHERE chat_id = ? AND meeting_id = ?\<close>. A Python integer
  bound to a parameter of the statement has to fit SQLite's 64-bit integer; otherwise
  \<^verbatim>\<open>execute\<close> raises \<^verbatim>\<open>OverflowError\<close> and nothing is written.
\<close>

definition sqlite_integer :: "int \<Rightarrow> bool" where
  "sqlite_integer i \<longleftrightarrow> - (2 ^ 63) \<le> i \<and> i < 2 ^ 63"

definition update_where ::
  "string \<Rightarrow> string \<Rightarrow> (questionnaire \<Rightarrow> questionnaire) \<Rightarrow> state \<Rightarrow> state" where
  "update_where chat_id meeting_id f s =
     s\<lparr>questionnaires :=
          map (\<lambda>r. if has_key chat_id meeting_id r then f r else r) (questionnaires s)\<rparr>"

definition update_last_message_id :: "string \<Rightarrow> string \<Rightarrow> int \<Rightarrow> unit prog" where
  "update_last_message_id chat_id meeting_id message_id s =
     (if sqlite_integer message_id then
        (Inr (), emit (DbSetLastMessage chat_id meeting_id message_id)
                   (update_where chat_id meeting_id
                      (\<lambda>r. r\<lparr>q_last_message_id := Some message_id\<rparr>) s))
      else (Inl OverflowError, s))"

definition update_questionnaire_status :: "string \<Rightarrow> string \<Rightarrow> status \<Rightarrow> int \<Rightarrow> unit prog" where
  "update_questionnaire_status chat_id meeting_id st current_question s =
     (if sqlite_integer current_question then
        (Inr (), emit (DbSetStatus chat_id meeting_id st current_question)
                   (update_where chat_id meeting_id
                      (\<lambda>r. r\<lparr>q_status := st, q_current_question := current_question\<rparr>) s))
      else (Inl OverflowError, s))"

definition update_answers :: "string \<Rightarrow> string \<Rightarrow> json_object \<Rightarrow> int \<Rightarrow> unit prog" where
  "update_answers chat_id meeting_id answers next_question s =
     (if sqlite_integer next_question then
        (Inr (), emit (DbSetAnswers chat_id meeting_id answers next_question)
                   (update_where chat_id meeting_id
                      (\<lambda>r. r\<lparr>q_answers := answers, q_current_question := next_question\<rparr>) s))
      else (Inl OverflowError, s))"

definition update_completed :: "string \<Rightarrow> string \<Rightarrow> json_object \<Rightarrow> int \<Rightarrow> unit prog" where
  "update_completed chat_id meeting_id answers next_question s =
     (if sqlite_integer next_question then
        (Inr (), emit (DbComplete chat_id meeting_id answers next_question)
                   (update_where chat_id meeting_id
                      (\<lambda>r. r\<lparr>q_answers := answers, q_status := Completed,
                              q_current_question := next_question\<rparr>) s))
      else (Inl OverflowError, s))"

subsection \<open>Calls to Notion and Telegram\<close>

definition fetch_notion_meetings :: "world \<Rightarrow> meeting list prog" where
  "fetch_notion_meetings w = call (w_query w) NotionQuery"

definition get_notion_page_name :: "world \<Rightarrow> string \<Rightarrow> string prog" where
  "get_notion_page_name w page_id = call (\<lambda>t. w_page_name w t page_id) (NotionPageName page_id)"

definition get_mentor_name_from_notion :: "world \<Rightarrow> string \<Rightarrow> string prog" where
  "get_mentor_name_from_notion w meeting_id =
     andthen (call (\<lambda>t. w_page_mentor w t meeting_id) (NotionPageMentor meeting_id))
       (\<lambda>mentor_relation. get_notion_page_name w mentor_relation)"

definition get_meeting_summary :: "world \<Rightarrow> string \<Rightarrow> string option prog" where
  "get_meeting_summary w meeting_id =
     call (\<lambda>t. w_page_summary w t meeting_id) (NotionPageSummary meeting_id)"

definition send_telegram_message ::
  "world \<Rightarrow> chat \<Rightarrow> message_text \<Rightarrow> keyboard option \<Rightarrow> int option prog" where
  "send_telegram_message w chat_id txt keyboard =
     call (\<lambda>t. w_send w t chat_id txt keyboard) (TgSend chat_id txt keyboard)"

definition edit_telegram_message ::
  "world \<Rightarrow> string \<Rightarrow> int \<Rightarrow> message_text \<Rightarrow> keyboard option \<Rightarrow> unit prog" where
  "edit_telegram_message w chat_id message_id txt keyboard =
     call (\<lambda>t. w_edit w t chat_id message_id txt keyboard)
          (TgEdit chat_id message_id txt keyboard)"

definition delete_telegram_message :: "world \<Rightarrow> string \<Rightarrow> int \<Rightarrow> bool prog" where
  "delete_telegram_message w chat_id message_id =
     call (\<lambda>t. w_delete w t chat_id message_id) (TgDelete chat_id message_id)"

definition get_telegram_updates :: "world \<Rightarrow> update list prog" where
  "get_telegram_updates w s =
     call (\<lambda>t. w_updates w t (offset s)) (TgGetUpdates (offset s)) s"

definition mark_notion_meeting_completed :: "world \<Rightarrow> string \<Rightarrow> unit prog" where
  "mark_notion_meeting_completed w meeting_id =
     andthen (call (\<lambda>t. w_patch w t meeting_id) (NotionPatch meeting_id)) (\<lambda>status. ret ())"

text \<open>\<^verbatim>\<open>message['result']['message_id']\<close> raises when the reply carries no result.\<close>

definition send_initial_message :: "world \<Rightarrow> string \<Rightarrow> string \<Rightarrow> string \<Rightarrow> int prog" where
  "send_initial_message w chat_id meeting_name mentor_name =
     andthen (send_telegram_message w (ChatStr chat_id) (InitialPrompt meeting_name mentor_name)
                (Some [(StartLabel, ''start,'' @ chat_id @ '','' @ meeting_name)]))
       (\<lambda>message. case message of None \<Rightarrow> lift (Inl KeyError)
                                  | Some message_id \<Rightarrow> ret message_id)"

subsection \<open>Discovery\<close>

definition process_meeting :: "world \<Rightarrow> meeting \<Rightarrow> unit prog" where
  "process_meeting w meeting =
     andthen (lift (m_properties meeting)) (\<lambda>properties.
     andthen (lift (m_id meeting)) (\<lambda>meeting_id.
     andthen (lift (m_name meeting)) (\<lambda>meeting_name.
     andthen (lift (m_mentor meeting)) (\<lambda>mentor_relation.
     andthen (get_notion_page_name w mentor_relation) (\<lambda>mentor_name.
     andthen (lift (m_student meeting)) (\<lambda>student_id.
     andthen (lift (m_chat_id meeting)) (\<lambda>chat_id.
     (\<lambda>s. if is_meeting_processed meeting_id s then ret () s
          else
            andthen (save_questionnaire chat_id meeting_id meeting_name mentor_name student_id)
              (\<lambda>u.
            andthen (send_initial_message w chat_id meeting_name mentor_name) (\<lambda>message_id.
            andthen (update_last_message_id chat_id meeting_id message_id) (\<lambda>u.
            mark_meeting_processed meeting_id))) s))))))))"

subsection \<open>The questionnaire\<close>

definition questions :: "question list" where
  "questions = [QProductivity, QResponseSpeed, QPlanUnderstanding, QExpertise, QCoordinator]"

definition get_question_text :: "int \<Rightarrow> exn + message_text" where
  "get_question_text question_num =
     (case py_index questions (question_num - 1) of
        Inl e \<Rightarrow> Inl e
      | Inr q \<Rightarrow> Inr (QuestionText q))"

definition generate_question_keyboard :: "int \<Rightarrow> string \<Rightarrow> string \<Rightarrow> keyboard" where
  "generate_question_keyboard question_num chat_id meeting_id =
     map (\<lambda>i. (Stars i, ''answer,'' @ chat_id @ '','' @ meeting_id @ '','' @
                         str_int question_num @ '','' @ str_int i))
         [1, 2, 3, 4, 5]"

definition start_questionnaire :: "world \<Rightarrow> string \<Rightarrow> string \<Rightarrow> int \<Rightarrow> unit prog" where
  "start_questionnaire w chat_id meeting_name message_id s =
     (case select_chat_status chat_id Pending (questionnaires s) of
        None \<Rightarrow> (Inr (), s)
      | Some row \<Rightarrow>
          (let meeting_id = q_meeting_id row in
           andthen (update_questionnaire_status chat_id meeting_id InProgress 1) (\<lambda>u.
           andthen (lift (get_question_text 1)) (\<lambda>question_text.
           edit_telegram_message w chat_id message_id question_text
             (Some (generate_question_keyboard 1 chat_id meeting_id)))) s))"

definition save_feedback_to_notion :: "world \<Rightarrow> string \<Rightarrow> string \<Rightarrow> pydict \<Rightarrow> unit prog" where
  "save_feedback_to_notion w chat_id meeting_id answers s =
     (case find (has_key chat_id meeting_id) (questionnaires s) of
        None \<Rightarrow> (Inr (), s)
      | Some row \<Rightarrow>
          (let feedback_data =
                 \<lparr>fb_meeting = meeting_id, fb_student = q_student_id row,
                  fb_productivity = dict_get answers (KStr ''1'') 0,
                  fb_response_speed = dict_get answers (KStr ''2'') 0,
                  fb_plan_understanding = dict_get answers (KStr ''3'') 0,
                  fb_expertise = dict_get answers (KStr ''4'') 0,
                  fb_effectiveness = dict_get answers (KInt 5) 0,
                  fb_meeting_name = q_meeting_name row, fb_chat_id = chat_id\<rparr>
           in call (\<lambda>t. w_create w t feedback_data) (NotionCreate feedback_data) s))"

definition process_answer :: "world \<Rightarrow> string \<Rightarrow> int \<Rightarrow> int \<Rightarrow> int \<Rightarrow> unit prog" where
  "process_answer w chat_id question_num points message_id s =
     (case select_chat_status chat_id InProgress (questionnaires s) of
        None \<Rightarrow> (Inr (), s)
      | Some row \<Rightarrow>
          (let meeting_id = q_meeting_id row;
               answers = dict_set (json_loads (q_answers row)) (KInt question_num) points;
               next_question = q_current_question row + 1;
               total_questions = 5
           in if next_question \<le> total_questions then
                andthen (update_answers chat_id meeting_id (json_dumps answers) next_question)
                  (\<lambda>u.
                andthen (lift (get_question_text next_question)) (\<lambda>question_text.
                edit_telegram_message w chat_id message_id question_text
                  (Some (generate_question_keyboard next_question chat_id meeting_id)))) s
              else
                andthen (update_completed chat_id meeting_id (json_dumps answers) next_question)
                  (\<lambda>u.
                andthen (get_meeting_summary w meeting_id) (\<lambda>summary.
                andthen (edit_telegram_message w chat_id message_id (Closing summary) None)
                  (\<lambda>u.
                andthen (save_feedback_to_notion w chat_id meeting_id answers) (\<lambda>u.
                mark_notion_meeting_completed w meeting_id)))) s))"

subsection \<open>Inbound events\<close>

definition required :: "'a option \<Rightarrow> exn + 'a" where
  "required v = (case v of None \<Rightarrow> Inl KeyError | Some x \<Rightarrow> Inr x)"

definition handle_callback_query :: "world \<Rightarrow> callback_query \<Rightarrow> unit prog" where
  "handle_callback_query w callback_query =
     andthen (lift (required (cq_data callback_query))) (\<lambda>payload.
     (let data = split_comma payload in
      andthen (lift (py_index data 0)) (\<lambda>action.
        if action = ''start'' then
          andthen (lift (py_index data 1)) (\<lambda>chat_id.
          andthen (if length data > 2 then lift (py_index data 2) else ret [])
            (\<lambda>meeting_name.
          andthen (lift (required (cq_message_id callback_query))) (\<lambda>message_id.
          start_questionnaire w chat_id meeting_name message_id)))
        else if action = ''answer'' then
          andthen (lift (py_index data 1)) (\<lambda>chat_id.
          andthen (lift (py_index data 2)) (\<lambda>meeting_id.
          andthen (lift (py_index data 3)) (\<lambda>field3.
          andthen (lift (py_int field3)) (\<lambda>question_num.
          andthen (lift (py_index data 4)) (\<lambda>field4.
          andthen (lift (py_int field4)) (\<lambda>points.
          andthen (lift (required (cq_message_id callback_query))) (\<lambda>message_id.
          process_answer w chat_id question_num points message_id)))))))
        else ret ())))"

subsection \<open>The three loops, one cycle at a time\<close>

primrec for_each :: "('a \<Rightarrow> unit prog) \<Rightarrow> 'a list \<Rightarrow> unit prog" where
  "for_each body [] = ret ()"
| "for_each body (x # xs) = andthen (body x) (\<lambda>u. for_each body xs)"

text \<open>\<^verbatim>\<open>try: ... except Exception as e: logger.error(...)\<close> around the body of a cycle.\<close>

definition try_except :: "unit prog \<Rightarrow> state \<Rightarrow> state" where
  "try_except body s =
     (case body s of (Inl e, s') \<Rightarrow> emit (LogError e) s' | (Inr u, s') \<Rightarrow> s')"

definition notion_checker_cycle :: "world \<Rightarrow> state \<Rightarrow> state" where
  "notion_checker_cycle w =
     try_except (andthen (fetch_notion_meetings w) (\<lambda>meetings.
                 for_each (process_meeting w) meetings))"

definition remind :: "world \<Rightarrow> questionnaire \<Rightarrow> unit prog" where
  "remind w row =
     (let chat_id = q_chat_id row; meeting_id = q_meeting_id row;
          meeting_name = q_meeting_name row
      in andthen (case q_last_message_id row of
                    None \<Rightarrow> ret ()
                  | Some last_message_id \<Rightarrow>
                      andthen (delete_telegram_message w chat_id last_message_id)
                        (\<lambda>reply. ret ()))
           (\<lambda>u.
         andthen (get_mentor_name_from_notion w meeting_id) (\<lambda>mentor_name.
         andthen (send_initial_message w chat_id meeting_name mentor_name) (\<lambda>message_id.
         update_last_message_id chat_id meeting_id message_id))))"

definition reminder_checker_cycle :: "world \<Rightarrow> state \<Rightarrow> state" where
  "reminder_checker_cycle w =
     try_except (\<lambda>s. for_each (remind w)
                       (filter (\<lambda>r. q_status r = Pending) (questionnaires s)) s)"

definition handle_update :: "world \<Rightarrow> update \<Rightarrow> unit prog" where
  "handle_update w upd =
     andthen (lift (required (update_id upd))) (\<lambda>uid.
     andthen (\<lambda>s. (Inr (), s\<lparr>offset := uid + 1\<rparr>)) (\<lambda>u.
       case update_body upd of
         CallbackQuery callback_query \<Rightarrow> handle_callback_query w callback_query
       | Message msg \<Rightarrow>
           (case msg_text msg of
              None \<Rightarrow> ret ()
            | Some t \<Rightarrow>
                if py_strip t = ''/chat_id@Feedback_Impact_bot'' then
                  andthen (lift (required (msg_chat_id msg))) (\<lambda>chat_id.
                  andthen (send_telegram_message w (ChatNum chat_id) (ChatIdEcho chat_id) None)
                    (\<lambda>reply. ret ()))
                else ret ())
       | OtherUpdate \<Rightarrow> ret ()))"

definition telegram_polling_cycle :: "world \<Rightarrow> state \<Rightarrow> state" where
  "telegram_polling_cycle w =
     try_except (andthen (get_telegram_updates w) (\<lambda>updates.
                 for_each (handle_update w) updates))"

text \<open>
  The three loops never return. A run of the bot is a schedule: which loop performs its
  next cycle, for any finite number of cycles.
\<close>

datatype task = NotionChecker | ReminderChecker | TelegramPolling

definition cycle :: "world \<Rightarrow> task \<Rightarrow> state \<Rightarrow> state" where
  "cycle w t =
     (case t of
        NotionChecker \<Rightarrow> notion_checker_cycle w
      | ReminderChecker \<Rightarrow> reminder_checker_cycle w
      | TelegramPolling \<Rightarrow> telegram_polling_cycle w)"

definition start :: "world \<Rightarrow> task list \<Rightarrow> state \<Rightarrow> state" where
  "start w schedule s = fold (cycle w) schedule s"

text \<open>\<^verbatim>\<open>init_database\<close> on a fresh file: both tables empty; the polling offset starts at 0.\<close>

definition init_database :: state where
  "init_database = \<lparr>questionnaires = [], processed_meetings = [], offset = 0, trace = []\<rparr>"

section \<open>Row updates of the handlers\<close>

text \<open>
  What the \<^verbatim>\<open>UPDATE\<close> of \<^verbatim>\<open>process_answer\<close> writes into a row \<open>r\<close>, computed from the row
  \<open>row\<close> that the \<^verbatim>\<open>SELECT\<close> returned: both branches of the method set \<^verbatim>\<open>answers\<close> and
  \<^verbatim>\<open>current_question\<close>, the second one sets \<^verbatim>\<open>status\<close> as well.
\<close>

definition answer_update :: "questionnaire \<Rightarrow> int \<Rightarrow> int \<Rightarrow> questionnaire \<Rightarrow> questionnaire" where
  "answer_update row question_num points r =
     r\<lparr>q_answers := json_dumps (dict_set (json_loads (q_answers row)) (KInt question_num) points),
       q_status := (if q_current_question row + 1 \<le> 5 then q_status r else Completed),
       q_current_question := q_current_question row + 1\<rparr>"

definition start_update :: "questionnaire \<Rightarrow> questionnaire" where
  "start_update r = r\<lparr>q_status := InProgress, q_current_question := 1\<rparr>"

section \<open>A concrete run: the scenario of the specification\<close>

text \<open>
  Collaborators that always answer: Notion knows every page, Telegram numbers each
  sent message with the moment of the call.
\<close>

definition reliable :: world where
  "reliable =
     \<lparr>w_query = (\<lambda>t. Inr []),
      w_page_name = (\<lambda>t page_id. Inr ''Mentor''),
      w_page_mentor = (\<lambda>t meeting_id. Inr ''mentor-page''),
      w_page_summary = (\<lambda>t meeting_id. Inr (Some ''summary'')),
      w_create = (\<lambda>t fb. Inr ()),
      w_patch = (\<lambda>t meeting_id. Inr 200),
      w_send = (\<lambda>t chat_id txt keyboard. Inr (Some (int t))),
      w_edit = (\<lambda>t chat_id message_id txt keyboard. Inr ()),
      w_delete = (\<lambda>t chat_id message_id. Inr True),
      w_updates = (\<lambda>t off. Inr [])\<rparr>"

definition sprint_review :: meeting where
  "sprint_review =
     \<lparr>m_properties = Inr (), m_id = Inr ''mid'', m_name = Inr ''Sprint Review'',
      m_mentor = Inr ''mentor-page'', m_student = Inr ''student'', m_chat_id = Inr ''123''\<rparr>"

definition pending_row :: questionnaire where
  "pending_row =
     \<lparr>q_chat_id = ''123'', q_meeting_id = ''mid'', q_meeting_name = ''Sprint Review'',
      q_student_id = ''student'', q_status = Pending, q_current_question = 0,
      q_answers = [], q_last_message_id = Some 2\<rparr>"

definition started_row :: questionnaire where
  "started_row = pending_row\<lparr>q_status := InProgress, q_current_question := 1\<rparr>"

definition discovered :: state where
  "discovered =
     \<lparr>questionnaires = [pending_row], processed_meetings = [''mid''], offset = 0, trace = []\<rparr>"

definition started :: state where
  "started = discovered\<lparr>questionnaires := [started_row]\<rparr>"

text \<open>
  The tables after a discovery in which Telegram was down: the row of the meeting is
  there, without message reference, and the meeting is not marked as processed.
\<close>

definition send_failed :: state where
  "send_failed =
     snd (process_meeting (reliable\<lparr>w_send := (\<lambda>t chat_id txt keyboard. Inl UpstreamError)\<rparr>)
            sprint_review init_database)"

text \<open>Answer events \<open>(question_num, points, message_id)\<close> of one chat, handled one after another.\<close>

fun process_answers :: "world \<Rightarrow> string \<Rightarrow> (int \<times> int \<times> int) list \<Rightarrow> state \<Rightarrow> state" where
  "process_answers w chat_id [] s = s"
| "process_answers w chat_id ((question_num, points, message_id) # events) s =
     process_answers w chat_id events
       (snd (process_answer w chat_id question_num points message_id s))"

text \<open>A meeting record in which a field that \<^verbatim>\<open>process_meeting\<close> reads is missing.\<close>

definition shape_error :: "meeting \<Rightarrow> bool" where
  "shape_error m \<longleftrightarrow>
     isl (m_properties m) \<or> isl (m_id m) \<or> isl (m_name m) \<or> isl (m_mentor m) \<or>
     isl (m_student m) \<or> isl (m_chat_id m)"

definition broken :: meeting where
  "broken = sprint_review\<lparr>m_id := Inr ''other'', m_name := Inl KeyError\<rparr>"

definition notion_returns :: "meeting list \<Rightarrow> world" where
  "notion_returns meetings = reliable\<lparr>w_query := (\<lambda>t. Inr meetings)\<rparr>"

section \<open>Operations on questionnaires and the order of the states\<close>

text \<open>The three operations that touch a questionnaire: discovery creates it, a start
  event starts it, an answer event advances it.\<close>

datatype operation =
    Create meeting
  | Start string string int
  | Answer string int int int

definition apply_operation :: "world \<Rightarrow> operation \<Rightarrow> state \<Rightarrow> state" where
  "apply_operation w op s =
     (case op of
        Create m \<Rightarrow> snd (process_meeting w m s)
      | Start chat_id meeting_name message_id \<Rightarrow>
          snd (start_questionnaire w chat_id meeting_name message_id s)
      | Answer chat_id question_num points message_id \<Rightarrow>
          snd (process_answer w chat_id question_num points message_id s))"

fun status_rank :: "status \<Rightarrow> nat" where
  "status_rank Pending = 0"
| "status_rank InProgress = 1"
| "status_rank Completed = 2"

definition one_step :: "status \<Rightarrow> status \<Rightarrow> bool" where
  "one_step a b \<longleftrightarrow> b = a \<or> (a = Pending \<and> b = InProgress) \<or> (a = InProgress \<and> b = Completed)"

definition row_key :: "questionnaire \<Rightarrow> string \<times> string" where
  "row_key r = (q_chat_id r, q_meeting_id r)"

text \<open>The primary key of \<^verbatim>\<open>questionnaires\<close>, as a list: it never holds a pair twice.\<close>

definition keys :: "state \<Rightarrow> (string \<times> string) list" where
  "keys s = map row_key (questionnaires s)"

text \<open>
  Two tables, the second one later than the first. \<open>table_step\<close>: every row is still there
  under its key, its status is the same or the next one, and every further row is pending.
  \<open>never_backward\<close>: every row is still there under its key and its status is not an
  earlier one.
\<close>

definition table_step :: "questionnaire list \<Rightarrow> questionnaire list \<Rightarrow> bool" where
  "table_step rows rows' \<longleftrightarrow>
     length rows \<le> length rows' \<and>
     (\<forall>i < length rows. row_key (rows' ! i) = row_key (rows ! i) \<and>
                         one_step (q_status (rows ! i)) (q_status (rows' ! i))) \<and>
     (\<forall>i. length rows \<le> i \<and> i < length rows' \<longrightarrow> q_status (rows' ! i) = Pending)"

definition never_backward :: "questionnaire list \<Rightarrow> questionnaire list \<Rightarrow> bool" where
  "never_backward rows rows' \<longleftrightarrow>
     length rows \<le> length rows' \<and>
     (\<forall>i < length rows. row_key (rows' ! i) = row_key (rows ! i) \<and>
                         status_rank (q_status (rows ! i)) \<le> status_rank (q_status (rows' ! i)))"

section \<open>Properties of the two tables that a method keeps\<close>

definition preserves :: "(questionnaire list \<Rightarrow> string list \<Rightarrow> bool) \<Rightarrow> 'a prog \<Rightarrow> bool" where
  "preserves Q m \<longleftrightarrow>
     (\<forall>s. Q (questionnaires s) (processed_meetings s) \<longrightarrow>
          Q (questionnaires (snd (m s))) (processed_meetings (snd (m s))))"

text \<open>The meeting is marked as processed and exactly one row has the key.\<close>

definition one_row :: "string \<Rightarrow> string \<Rightarrow> questionnaire list \<Rightarrow> string list \<Rightarrow> bool" where
  "one_row chat_id meeting_id rows processed \<longleftrightarrow>
     meeting_id \<in> set processed \<and> length (filter (has_key chat_id meeting_id) rows) = 1"

text \<open>
  What the primary key and the order of the steps of discovery give for the two tables:
  no two rows have the same key, and every processed meeting has a row.
\<close>

definition consistent :: "questionnaire list \<Rightarrow> string list \<Rightarrow> bool" where
  "consistent rows processed \<longleftrightarrow>
     distinct (map row_key rows) \<and>
     (\<forall>meeting_id \<in> set processed. \<exists>r \<in> set rows. q_meeting_id r = meeting_id)"

section \<open>Basic facts about the state transformers\<close>

lemma andthen_lift_Inl: "andthen (lift (Inl e)) f s = (Inl e, s)"
  by (simp add: andthen_def lift_def)

lemma andthen_lift_Inr: "andthen (lift (Inr a)) f s = f a s"
  by (simp add: andthen_def lift_def)

lemma andthen_ret: "andthen (ret a) f s = f a s"
  by (simp add: andthen_def ret_def)

lemma andthen_cases:
  "andthen m f s = (case m s of (Inl e, s') \<Rightarrow> (Inl e, s') | (Inr a, s') \<Rightarrow> f a s')"
  by (simp add: andthen_def)

lemma emit_fields:
  "questionnaires (emit e s) = questionnaires s"
  "processed_meetings (emit e s) = processed_meetings s"
  "offset (emit e s) = offset s"
  "trace (emit e s) = trace s @ [e]"
  by (simp_all add: emit_def)

lemma call_eq:
  "call respond ev s = (respond (length (trace s)), emit (ev (respond (length (trace s)))) s)"
  by (simp add: call_def Let_def)

lemma update_where_fields:
  "processed_meetings (update_where c m f s) = processed_meetings s"
  "offset (update_where c m f s) = offset s"
  "trace (update_where c m f s) = trace s"
  "questionnaires (update_where c m f s) =
     map (\<lambda>r. if has_key c m r then f r else r) (questionnaires s)"
  by (simp_all add: update_where_def)

lemma sqlite_integer_small: "- 9223372036854775808 \<le> i \<Longrightarrow> i < 9223372036854775808 \<Longrightarrow> sqlite_integer i"
  by (simp add: sqlite_integer_def)

lemma sqlite_integer_1: "sqlite_integer 1"
  by (simp add: sqlite_integer_def)

subsection \<open>The row that a query by chat and status returns\<close>

lemma find_in_table: "find P xs = Some x \<Longrightarrow> x \<in> set xs \<and> P x"
  by (induction xs) (auto split: if_splits)


lemma select_in_table:
  "select_chat_status c st rows = Some x \<Longrightarrow> x \<in> set rows \<and> q_chat_id x = c \<and> q_status x = st"
  unfolding select_chat_status_def by (drule find_in_table) simp

lemma select_None:
  "select_chat_status c st rows = None \<longleftrightarrow>
     (\<forall>r \<in> set rows. \<not> (q_chat_id r = c \<and> q_status r = st))"
  by (auto simp: select_chat_status_def find_None_iff)

lemma find_sorted_least:
  "sorted (map f xs) \<Longrightarrow> find P xs = Some x \<Longrightarrow> y \<in> set xs \<Longrightarrow> P y \<Longrightarrow> f x \<le> f y"
  by (induction xs) (auto split: if_splits)

lemma select_least:
  assumes "select_chat_status c st rows = Some x" and "r \<in> set rows"
    and "q_chat_id r = c" and "q_status r = st"
  shows "q_meeting_id x \<le> q_meeting_id r"
proof -
  have "sorted (map q_meeting_id (sort_key q_meeting_id rows))"
    by (rule sorted_sort_key)
  moreover have "r \<in> set (sort_key q_meeting_id rows)"
    using assms(2) by simp
  moreover have "find (\<lambda>r. q_chat_id r = c \<and> q_status r = st) (sort_key q_meeting_id rows) = Some x"
    using assms(1) by (simp add: select_chat_status_def)
  ultimately show ?thesis
    using assms(3,4)
    by (rule_tac find_sorted_least
      [where P = "\<lambda>r. q_chat_id r = c \<and> q_status r = st" and f = q_meeting_id
         and xs = "sort_key q_meeting_id rows"]) simp_all
qed

lemma insort_key_map:
  "(\<And>y. f (g y) = f y) \<Longrightarrow> insort_key f (g x) (map g ys) = map g (insort_key f x ys)"
  by (induction ys) simp_all

lemma sort_key_map:
  "(\<And>y. f (g y) = f y) \<Longrightarrow> sort_key f (map g xs) = map g (sort_key f xs)"
  by (induction xs) (simp_all add: insort_key_map)

lemma find_map_option:
  "(\<And>y. y \<in> set ys \<Longrightarrow> P (g y) = P y) \<Longrightarrow> find P (map g ys) = map_option g (find P ys)"
  by (induction ys) simp_all

lemma select_map:
  assumes "\<And>y. q_meeting_id (g y) = q_meeting_id y"
    and "\<And>y. y \<in> set rows \<Longrightarrow> q_chat_id (g y) = q_chat_id y"
    and "\<And>y. y \<in> set rows \<Longrightarrow> (q_status (g y) = st) = (q_status y = st) \<or> q_chat_id y \<noteq> c"
  shows "select_chat_status c st (map g rows) = map_option g (select_chat_status c st rows)"
proof -
  have "sort_key q_meeting_id (map g rows) = map g (sort_key q_meeting_id rows)"
    using assms(1) by (rule sort_key_map)
  moreover have "find (\<lambda>r. q_chat_id r = c \<and> q_status r = st) (map g (sort_key q_meeting_id rows)) =
    map_option g (find (\<lambda>r. q_chat_id r = c \<and> q_status r = st) (sort_key q_meeting_id rows))"
    by (rule find_map_option) (use assms(2,3) in auto)
  ultimately show ?thesis
    by (simp add: select_chat_status_def)
qed

subsection \<open>What each handler does to the table of questionnaires\<close>

lemma process_answer_table:
  "questionnaires (snd (process_answer w chat_id question_num points message_id s)) =
     (case select_chat_status chat_id InProgress (questionnaires s) of
        None \<Rightarrow> questionnaires s
      | Some row \<Rightarrow>
          if sqlite_integer (q_current_question row + 1) then
            map (\<lambda>r. if has_key chat_id (q_meeting_id row) r
                     then answer_update row question_num points r else r)
                (questionnaires s)
          else questionnaires s)"
  by (auto simp: process_answer_def Let_def andthen_cases call_eq emit_fields
      update_where_fields update_answers_def update_completed_def lift_def ret_def
      edit_telegram_message_def get_meeting_summary_def save_feedback_to_notion_def
      mark_notion_meeting_completed_def answer_update_def
      split: option.splits sum.splits prod.splits)

lemma process_answer_processed:
  "processed_meetings (snd (process_answer w chat_id question_num points message_id s)) =
     processed_meetings s"
  by (auto simp: process_answer_def Let_def andthen_cases call_eq emit_fields
      update_where_fields update_answers_def update_completed_def lift_def ret_def
      edit_telegram_message_def get_meeting_summary_def save_feedback_to_notion_def
      mark_notion_meeting_completed_def
      split: option.splits sum.splits prod.splits)

lemma start_questionnaire_table:
  "questionnaires (snd (start_questionnaire w chat_id meeting_name message_id s)) =
     (case select_chat_status chat_id Pending (questionnaires s) of
        None \<Rightarrow> questionnaires s
      | Some row \<Rightarrow>
          map (\<lambda>r. if has_key chat_id (q_meeting_id row) r then start_update r else r)
              (questionnaires s))"
  by (auto simp: start_questionnaire_def Let_def andthen_cases call_eq emit_fields
      update_where_fields update_questionnaire_status_def lift_def ret_def
      edit_telegram_message_def start_update_def sqlite_integer_1
      split: option.splits sum.splits prod.splits)

lemma start_questionnaire_processed:
  "processed_meetings (snd (start_questionnaire w chat_id meeting_name message_id s)) =
     processed_meetings s"
  by (auto simp: start_questionnaire_def Let_def andthen_cases call_eq emit_fields
      update_where_fields update_questionnaire_status_def lift_def ret_def
      edit_telegram_message_def sqlite_integer_1
      split: option.splits sum.splits prod.splits)

lemma answer_update_fields:
  "q_chat_id (answer_update row q v r) = q_chat_id r"
  "q_meeting_id (answer_update row q v r) = q_meeting_id r"
  "q_meeting_name (answer_update row q v r) = q_meeting_name r"
  "q_student_id (answer_update row q v r) = q_student_id r"
  "q_last_message_id (answer_update row q v r) = q_last_message_id r"
  "q_current_question (answer_update row q v r) = q_current_question row + 1"
  "q_answers (answer_update row q v r) =
     json_dumps (dict_set (json_loads (q_answers row)) (KInt q) v)"
  "q_status (answer_update row q v r) =
     (if q_current_question row + 1 \<le> 5 then q_status r else Completed)"
  by (simp_all add: answer_update_def)

lemma start_update_fields:
  "q_chat_id (start_update r) = q_chat_id r"
  "q_meeting_id (start_update r) = q_meeting_id r"
  "q_meeting_name (start_update r) = q_meeting_name r"
  "q_student_id (start_update r) = q_student_id r"
  "q_last_message_id (start_update r) = q_last_message_id r"
  "q_answers (start_update r) = q_answers r"
  "q_current_question (start_update r) = 1"
  "q_status (start_update r) = InProgress"
  by (simp_all add: start_update_def)

lemma has_key_answer_update:
  "has_key c m (answer_update row q v r) = has_key c m r"
  by (simp add: has_key_def answer_update_fields)

lemma has_key_start_update: "has_key c m (start_update r) = has_key c m r"
  by (simp add: has_key_def start_update_fields)


subsection \<open>Dictionaries and the JSON column\<close>

lemma map_of_dict_set: "map_of (dict_set d k v) = (map_of d)(k \<mapsto> v)"
  by (induction d) (auto simp: fun_eq_iff)

lemma keys_dict_set: "fst ` set (dict_set d k v) = insert k (fst ` set d)"
proof (induction d)
  case Nil
  then show ?case by simp
next
  case (Cons a d)
  obtain k' v' where a: "a = (k', v')" by (cases a)
  show ?case
  proof (cases "k' = k")
    case True
    then show ?thesis using a by auto
  next
    case False
    then show ?thesis using a Cons.IH by auto
  qed
qed

lemma dict_set_new: "k \<notin> fst ` set d \<Longrightarrow> dict_set d k v = d @ [(k, v)]"
  by (induction d) auto

lemma distinct_dict_set: "distinct (map fst d) \<Longrightarrow> distinct (map fst (dict_set d k v))"
proof (induction d)
  case Nil
  then show ?case by simp
next
  case (Cons a d)
  have "fst ` set (dict_set d k v) = insert k (fst ` set d)"
    by (rule keys_dict_set)
  with Cons show ?case
    by (cases a) auto
qed

lemma loads_fold_keys:
  "fst ` set (fold (\<lambda>(k, v) d. dict_set d (KStr k) v) ms d0) =
     fst ` set d0 \<union> KStr ` fst ` set ms"
  by (induction ms arbitrary: d0) (auto simp: keys_dict_set split: prod.splits)

lemma loads_fold_distinct:
  "distinct (map fst d0) \<Longrightarrow>
   distinct (map fst (fold (\<lambda>(k, v) d. dict_set d (KStr k) v) ms d0))"
  by (induction ms arbitrary: d0) (auto simp: distinct_dict_set split: prod.splits)

lemma keys_json_loads: "fst ` set (json_loads ms) = KStr ` fst ` set ms"
  by (simp add: json_loads_def loads_fold_keys)

lemma distinct_json_loads: "distinct (map fst (json_loads ms))"
  by (simp add: json_loads_def loads_fold_distinct)

lemma json_loads_snoc: "json_loads (ms @ [(k, v)]) = dict_set (json_loads ms) (KStr k) v"
  by (simp add: json_loads_def)

lemma json_dumps_snoc: "json_dumps (d @ [(k, v)]) = json_dumps d @ [(key_str k, v)]"
  by (simp add: json_dumps_def)

lemma keys_json_dumps: "fst ` set (json_dumps d) = key_str ` fst ` set d"
  by (force simp: json_dumps_def image_iff split: prod.splits)

lemma loads_fold_dumps:
  "distinct (map fst d) \<Longrightarrow> \<forall>k \<in> fst ` set d. \<exists>x. k = KStr x \<Longrightarrow>
   fst ` set d \<inter> fst ` set d0 = {} \<Longrightarrow>
   fold (\<lambda>(k, v) d. dict_set d (KStr k) v) (json_dumps d) d0 = d0 @ d"
proof (induction d arbitrary: d0)
  case Nil
  then show ?case by (simp add: json_dumps_def)
next
  case (Cons a d)
  obtain k v where a: "a = (k, v)" by (cases a)
  from Cons.prems a obtain x where k: "k = KStr x" by auto
  from Cons.prems a have new: "k \<notin> fst ` set d0" by auto
  have step: "dict_set d0 (KStr x) v = d0 @ [(k, v)]"
    using new k by (simp add: dict_set_new)
  have disj: "fst ` set d \<inter> fst ` set (d0 @ [(k, v)]) = {}"
    using Cons.prems a by auto
  have "fold (\<lambda>(k, v) d. dict_set d (KStr k) v) (json_dumps d) (d0 @ [(k, v)]) =
          (d0 @ [(k, v)]) @ d"
    using Cons.prems disj by (intro Cons.IH) auto
  then show ?case
    using a k step by (simp add: json_dumps_def key_str_def)
qed

lemma json_loads_dumps_loads: "json_loads (json_dumps (json_loads ms)) = json_loads ms"
proof -
  have "\<forall>k \<in> fst ` set (json_loads ms). \<exists>x. k = KStr x"
    by (auto simp: keys_json_loads)
  then have "fold (\<lambda>(k, v) d. dict_set d (KStr k) v) (json_dumps (json_loads ms)) [] =
               [] @ json_loads ms"
    by (intro loads_fold_dumps) (simp_all add: distinct_json_loads)
  then show ?thesis by (simp add: json_loads_def)
qed

text \<open>
  Writing \<^verbatim>\<open>answers[q] = v\<close> with an integer \<open>q\<close> and storing the dictionary makes the
  stored object map the string of \<open>q\<close> to \<open>v\<close> and keep every other key.
\<close>

lemma stored_answer:
  "map_of (json_loads (json_dumps (dict_set (json_loads ms) (KInt q) v))) =
     (map_of (json_loads ms))(KStr (str_int q) \<mapsto> v)"
proof -
  have "KInt q \<notin> fst ` set (json_loads ms)"
    by (auto simp: keys_json_loads)
  then have "dict_set (json_loads ms) (KInt q) v = json_loads ms @ [(KInt q, v)]"
    by (rule dict_set_new)
  then have "json_loads (json_dumps (dict_set (json_loads ms) (KInt q) v)) =
               dict_set (json_loads (json_dumps (json_loads ms))) (KStr (str_int q)) v"
    by (simp add: json_dumps_snoc json_loads_snoc key_str_def)
  then show ?thesis
    by (simp add: json_loads_dumps_loads map_of_dict_set)
qed

lemma stored_keys:
  "fst ` set (json_dumps (dict_set (json_loads ms) (KInt q) v)) =
     insert (str_int q) (fst ` set ms)"
proof -
  have "key_str ` KStr ` fst ` set ms = fst ` set ms"
    by (force simp: key_str_def image_iff)
  then show ?thesis
    by (simp add: keys_json_dumps keys_dict_set keys_json_loads key_str_def)
qed

subsection \<open>Rows, keys and updates\<close>

lemma has_key_row_key: "has_key c m r \<longleftrightarrow> row_key r = (c, m)"
  by (auto simp: has_key_def row_key_def)

lemma unique_row:
  assumes "distinct (map row_key rows)" and "r \<in> set rows" and "r' \<in> set rows"
    and "row_key r = row_key r'"
  shows "r = r'"
proof -
  have "inj_on row_key (set rows)"
    using assms(1) by (simp add: distinct_map)
  then show ?thesis
    using assms(2-4) by (auto dest: inj_onD)
qed

lemma update_absent:
  "\<forall>x \<in> set rows. \<not> has_key c m x \<Longrightarrow>
   map (\<lambda>r. if has_key c m r then f r else r) rows = rows"
  by (induction rows) simp_all

lemma update_keeps_keys:
  "(\<And>r. row_key (f r) = row_key r) \<Longrightarrow>
   map row_key (map (\<lambda>r. if has_key c m r then f r else r) rows) = map row_key rows"
  by (induction rows) simp_all

lemma row_key_updates:
  "row_key (answer_update row q v r) = row_key r"
  "row_key (start_update r) = row_key r"
  "row_key (r\<lparr>q_last_message_id := x\<rparr>) = row_key r"
  by (simp_all add: row_key_def answer_update_fields start_update_fields)

lemma process_meeting_table:
  "(questionnaires (snd (process_meeting w m s)) = questionnaires s \<and>
    processed_meetings (snd (process_meeting w m s)) = processed_meetings s) \<or>
   (\<exists>r. questionnaires (snd (process_meeting w m s)) = questionnaires s @ [r] \<and>
        q_status r = Pending \<and> q_current_question r = 0 \<and> q_answers r = [] \<and>
        m_chat_id m = Inr (q_chat_id r) \<and> m_id m = Inr (q_meeting_id r) \<and>
        (\<forall>x \<in> set (questionnaires s). \<not> has_key (q_chat_id r) (q_meeting_id r) x) \<and>
        \<not> is_meeting_processed (q_meeting_id r) s \<and>
        (processed_meetings (snd (process_meeting w m s)) = processed_meetings s \<or>
         processed_meetings (snd (process_meeting w m s)) =
           processed_meetings s @ [q_meeting_id r]))"
  by (auto simp: process_meeting_def andthen_def lift_def ret_def
      get_notion_page_name_def call_eq emit_fields save_questionnaire_def
      send_initial_message_def send_telegram_message_def update_last_message_id_def
      update_where_fields mark_meeting_processed_def update_absent
      is_meeting_processed_def
      split: sum.splits prod.splits option.splits if_splits)

lemma update_absent_fields:
  "\<forall>r \<in> set rows. q_chat_id r = c \<longrightarrow> q_meeting_id r \<noteq> m \<Longrightarrow>
   map (\<lambda>r. if q_chat_id r = c \<and> q_meeting_id r = m then f r else r) rows = rows"
  by (induction rows) auto

subsection \<open>Keeping a property of the tables\<close>

lemma preserves_ret: "preserves Q (ret a)"
  by (simp add: preserves_def ret_def)

lemma preserves_lift: "preserves Q (lift r)"
  by (simp add: preserves_def lift_def)

lemma preserves_call: "preserves Q (call respond ev)"
  by (simp add: preserves_def call_eq emit_fields)

lemma preserves_andthen:
  assumes "preserves Q m" and "\<And>a. preserves Q (f a)"
  shows "preserves Q (andthen m f)"
  unfolding preserves_def
proof (intro allI impI)
  fix s :: state
  assume q: "Q (questionnaires s) (processed_meetings s)"
  obtain r s' where ms: "m s = (r, s')" by (cases "m s")
  have q': "Q (questionnaires s') (processed_meetings s')"
    using assms(1) q ms by (auto simp: preserves_def)
  show "Q (questionnaires (snd (andthen m f s))) (processed_meetings (snd (andthen m f s)))"
  proof (cases r)
    case (Inl e)
    then show ?thesis using ms q' by (simp add: andthen_def)
  next
    case (Inr a)
    then show ?thesis
      using ms q' assms(2) [of a] by (simp add: andthen_def preserves_def)
  qed
qed

lemma preserves_for_each:
  assumes "\<And>x. preserves Q (body x)"
  shows "preserves Q (for_each body xs)"
  by (induction xs) (simp_all add: preserves_ret preserves_andthen assms)

lemma preserves_reading:
  assumes "\<And>x. preserves Q (f x)"
  shows "preserves Q (\<lambda>s. f (g s) s)"
  using assms by (simp add: preserves_def)

lemma preserves_offset: "preserves Q (\<lambda>s. (Inr (), s\<lparr>offset := n\<rparr>))"
  by (simp add: preserves_def)

lemma preserves_try_except:
  assumes "preserves Q body" and "Q (questionnaires s) (processed_meetings s)"
  shows "Q (questionnaires (try_except body s)) (processed_meetings (try_except body s))"
proof -
  obtain r s' where b: "body s = (r, s')" by (cases "body s")
  have "Q (questionnaires s') (processed_meetings s')"
    using assms b by (auto simp: preserves_def)
  then show ?thesis
    using b by (cases r) (simp_all add: try_except_def emit_fields)
qed

lemma preserves_external:
  "preserves Q (fetch_notion_meetings w)"
  "preserves Q (get_notion_page_name w page_id)"
  "preserves Q (get_mentor_name_from_notion w meeting_id)"
  "preserves Q (get_meeting_summary w meeting_id)"
  "preserves Q (send_telegram_message w chat txt keyboard)"
  "preserves Q (edit_telegram_message w chat_id message_id txt keyboard)"
  "preserves Q (delete_telegram_message w chat_id message_id)"
  "preserves Q (mark_notion_meeting_completed w meeting_id)"
  "preserves Q (send_initial_message w chat_id meeting_name mentor_name)"
  by (auto simp: fetch_notion_meetings_def get_notion_page_name_def
      get_mentor_name_from_notion_def get_meeting_summary_def send_telegram_message_def
      edit_telegram_message_def delete_telegram_message_def
      mark_notion_meeting_completed_def send_initial_message_def
      intro!: preserves_andthen preserves_call preserves_ret preserves_lift
      split: option.splits)

lemma preserves_get_telegram_updates: "preserves Q (get_telegram_updates w)"
  by (simp add: preserves_def get_telegram_updates_def call_eq emit_fields)

lemma preserves_remind:
  assumes "\<And>c m i. preserves Q (update_last_message_id c m i)"
  shows "preserves Q (remind w row)"
  unfolding remind_def Let_def
  by (intro preserves_andthen preserves_external assms)
    (simp_all add: preserves_ret preserves_andthen preserves_external split: option.splits)

lemma preserves_handle_callback_query:
  assumes "\<And>c n i. preserves Q (start_questionnaire w c n i)"
    and "\<And>c q p i. preserves Q (process_answer w c q p i)"
  shows "preserves Q (handle_callback_query w cq)"
  unfolding handle_callback_query_def Let_def
  by (intro preserves_andthen preserves_lift)
    (auto intro!: preserves_andthen preserves_lift preserves_ret assms)

lemma preserves_handle_update:
  assumes "\<And>c n i. preserves Q (start_questionnaire w c n i)"
    and "\<And>c q p i. preserves Q (process_answer w c q p i)"
  shows "preserves Q (handle_update w upd)"
  unfolding handle_update_def
  by (intro preserves_andthen preserves_lift preserves_offset)
    (auto intro!: preserves_andthen preserves_lift preserves_ret preserves_external
      preserves_handle_callback_query assms split: update_body.splits option.splits)

lemma preserves_cycle:
  assumes meeting: "\<And>m. preserves Q (process_meeting w m)"
    and reference: "\<And>c m i. preserves Q (update_last_message_id c m i)"
    and started: "\<And>c n i. preserves Q (start_questionnaire w c n i)"
    and answered: "\<And>c q p i. preserves Q (process_answer w c q p i)"
    and "Q (questionnaires s) (processed_meetings s)"
  shows "Q (questionnaires (cycle w t s)) (processed_meetings (cycle w t s))"
proof (cases t)
  case NotionChecker
  have "preserves Q
          (andthen (fetch_notion_meetings w) (\<lambda>meetings. for_each (process_meeting w) meetings))"
    by (intro preserves_andthen preserves_external preserves_for_each meeting)
  then show ?thesis
    using NotionChecker assms(5)
    by (simp add: cycle_def notion_checker_cycle_def preserves_try_except)
next
  case ReminderChecker
  have "preserves Q
          (\<lambda>s. for_each (remind w) (filter (\<lambda>r. q_status r = Pending) (questionnaires s)) s)"
    by (rule preserves_reading [where f = "for_each (remind w)"])
      (intro preserves_for_each preserves_remind reference)
  then show ?thesis
    using ReminderChecker assms(5)
    by (simp add: cycle_def reminder_checker_cycle_def preserves_try_except)
next
  case TelegramPolling
  have "preserves Q
          (andthen (get_telegram_updates w) (\<lambda>updates. for_each (handle_update w) updates))"
    by (intro preserves_andthen preserves_get_telegram_updates preserves_for_each
        preserves_handle_update started answered)
  then show ?thesis
    using TelegramPolling assms(5)
    by (simp add: cycle_def telegram_polling_cycle_def preserves_try_except)
qed

lemma preserves_schedule:
  assumes "\<And>m. preserves Q (process_meeting w m)"
    and "\<And>c m i. preserves Q (update_last_message_id c m i)"
    and "\<And>c n i. preserves Q (start_questionnaire w c n i)"
    and "\<And>c q p i. preserves Q (process_answer w c q p i)"
    and "Q (questionnaires s) (processed_meetings s)"
  shows "Q (questionnaires (start w schedule s)) (processed_meetings (start w schedule s))"
  using assms(5) unfolding start_def
proof (induction schedule arbitrary: s)
  case Nil
  then show ?case by simp
next
  case (Cons t schedule)
  have "Q (questionnaires (cycle w t s)) (processed_meetings (cycle w t s))"
    by (rule preserves_cycle [OF assms(1-4) Cons.prems])
  then show ?case
    using Cons.IH by simp
qed

subsection \<open>Payloads\<close>

lemma split_comma_not_Nil: "split_comma s \<noteq> []"
  by (induction s) (auto split: list.splits)

lemma py_index_numerals:
  "py_index xs 0 = (if xs = [] then Inl IndexError else Inr (xs ! 0))"
  "py_index xs 1 = (if length xs < 2 then Inl IndexError else Inr (xs ! 1))"
  "py_index xs 2 = (if length xs < 3 then Inl IndexError else Inr (xs ! 2))"
  "py_index xs 3 = (if length xs < 4 then Inl IndexError else Inr (xs ! 3))"
  "py_index xs 4 = (if length xs < 5 then Inl IndexError else Inr (xs ! 4))"
  by (auto simp: py_index_def)

lemma py_int_cases: "py_int x = Inl ValueError \<or> (\<exists>i. py_int x = Inr i)"
  by (simp add: py_int_def Let_def split: option.splits)

section \<open>Answers and the current question\<close>

lemma process_answer_none:
  "select_chat_status chat_id InProgress (questionnaires s) = None \<Longrightarrow>
   process_answer w chat_id question_num points message_id s = (Inr (), s)"
  by (simp add: process_answer_def)

lemma process_answer_overflow:
  "select_chat_status chat_id InProgress (questionnaires s) = Some row \<Longrightarrow>
   \<not> sqlite_integer (q_current_question row + 1) \<Longrightarrow>
   process_answer w chat_id question_num points message_id s = (Inl OverflowError, s)"
  by (simp add: process_answer_def Let_def andthen_cases update_answers_def
      update_completed_def)

lemma get_question_text_next:
  assumes "1 \<le> n" and "n \<le> 5"
  shows "get_question_text n = Inr (QuestionText (questions ! nat (n - 1)))"
  using assms by (simp add: get_question_text_def py_index_def questions_def)

lemma process_answer_next_question:
  assumes "select_chat_status chat_id InProgress (questionnaires s) = Some row"
    and "1 \<le> q_current_question row + 1" and "q_current_question row + 1 \<le> 5"
  shows "process_answer w chat_id question_num points message_id s =
     (w_edit w (length (trace s) + 1) chat_id message_id
        (QuestionText (questions ! nat (q_current_question row)))
        (Some (generate_question_keyboard (q_current_question row + 1) chat_id
                 (q_meeting_id row))),
      s\<lparr>questionnaires :=
           map (\<lambda>r. if has_key chat_id (q_meeting_id row) r
                    then answer_update row question_num points r else r)
               (questionnaires s),
        trace := trace s @
          [DbSetAnswers chat_id (q_meeting_id row)
             (json_dumps (dict_set (json_loads (q_answers row)) (KInt question_num) points))
             (q_current_question row + 1),
           TgEdit chat_id message_id
             (QuestionText (questions ! nat (q_current_question row)))
             (Some (generate_question_keyboard (q_current_question row + 1) chat_id
                      (q_meeting_id row)))
             (w_edit w (length (trace s) + 1) chat_id message_id
                (QuestionText (questions ! nat (q_current_question row)))
                (Some (generate_question_keyboard (q_current_question row + 1) chat_id
                         (q_meeting_id row))))]\<rparr>)"
proof -
  have int: "sqlite_integer (q_current_question row + 1)"
    using assms(2,3) by (simp add: sqlite_integer_def)
  have qtext: "get_question_text (q_current_question row + 1) =
      Inr (QuestionText (questions ! nat (q_current_question row)))"
    using get_question_text_next [OF assms(2,3)] by simp
  have upd: "(\<lambda>r. if has_key chat_id (q_meeting_id row) r
                  then answer_update row question_num points r else r) =
             (\<lambda>r. if has_key chat_id (q_meeting_id row) r
                  then r\<lparr>q_answers := json_dumps (dict_set (json_loads (q_answers row))
                                                     (KInt question_num) points),
                         q_current_question := q_current_question row + 1\<rparr> else r)"
    using assms(3) by (simp add: answer_update_def fun_eq_iff)
  show ?thesis
    unfolding upd using assms(1,3) int qtext
    by (simp add: process_answer_def Let_def andthen_cases call_eq emit_def
        update_where_def update_answers_def lift_def edit_telegram_message_def)
qed

text \<open>
  C1, as the code has it. An answer event of a chat reaches the questionnaire that
  \<^verbatim>\<open>process_answer\<close> selects: of the questionnaires in progress of that chat, the one with
  the least meeting id (the meeting id of the payload is not used). For that row \<open>row\<close>
  the method never compares the question index \<open>q\<close> of the event with
  \<^verbatim>\<open>current_question\<close>: every answer is accepted, whatever index it cites. With
  \<open>n = current_question + 1\<close>, which has to fit an SQLite integer (otherwise the method
  raises \<^verbatim>\<open>OverflowError\<close> and changes nothing):
  the table afterwards is the table before in which exactly the rows with the key of
  \<open>row\<close> are rewritten, their answers being those of \<open>row\<close> with \<open>score\<close> stored under
  \<open>q\<close>, their \<^verbatim>\<open>current_question\<close> being \<open>n\<close>, and their status \<^verbatim>\<open>completed\<close> if
  \<open>n > 5\<close> and unchanged otherwise; every other row, the set of processed meetings and
  the polling offset are unchanged; \<open>row\<close> itself is rewritten so, and reading its stored
  answers back finds \<open>score\<close> under \<open>q\<close>. While questions remain (\<open>1 \<le> n \<le> 5\<close>) the
  method performs exactly two steps, the \<^verbatim>\<open>UPDATE\<close> and one edit of the message
  \<open>message_id\<close> to the text of question \<open>n\<close> with the five buttons of question \<open>n\<close>,
  and returns what the edit returns.
\<close>

theorem answer_accepted_whatever_index:
  assumes "select_chat_status chat_id InProgress (questionnaires s) = Some row"
  shows "let n = q_current_question row + 1;
             m = q_meeting_id row;
             result = process_answer w chat_id q score message_id s;
             s' = snd result;
             stored = json_dumps (dict_set (json_loads (q_answers row)) (KInt q) score);
             question_text = QuestionText (questions ! nat (n - 1));
             keyboard = Some (generate_question_keyboard n chat_id m);
             reply = w_edit w (length (trace s) + 1) chat_id message_id question_text keyboard
         in if sqlite_integer n then
              questionnaires s' =
                map (\<lambda>r. if has_key chat_id m r
                         then r\<lparr>q_answers := stored,
                                q_status := (if n \<le> 5 then q_status r else Completed),
                                q_current_question := n\<rparr>
                         else r)
                    (questionnaires s) \<and>
              processed_meetings s' = processed_meetings s \<and>
              offset s' = offset s \<and>
              row\<lparr>q_answers := stored,
                  q_status := (if n \<le> 5 then InProgress else Completed),
                  q_current_question := n\<rparr> \<in> set (questionnaires s') \<and>
              map_of (json_loads stored) (KStr (str_int q)) = Some score \<and>
              (if 1 \<le> n \<and> n \<le> 5 then
                 fst result = reply \<and>
                 trace s' = trace s @ [DbSetAnswers chat_id m stored n,
                                       TgEdit chat_id message_id question_text keyboard reply]
               else True)
            else result = (Inl OverflowError, s)"
proof (cases "sqlite_integer (q_current_question row + 1)")
  case False
  then show ?thesis
    using process_answer_overflow [OF assms] by (simp add: Let_def)
next
  case int: True
  let ?n = "q_current_question row + 1"
  let ?m = "q_meeting_id row"
  let ?result = "process_answer w chat_id q score message_id s"
  let ?s' = "snd ?result"
  let ?stored = "json_dumps (dict_set (json_loads (q_answers row)) (KInt q) score)"
  let ?upd = "\<lambda>r. if has_key chat_id ?m r
                   then r\<lparr>q_answers := ?stored,
                          q_status := (if ?n \<le> 5 then q_status r else Completed),
                          q_current_question := ?n\<rparr>
                   else r"
  have upd: "?upd = (\<lambda>r. if has_key chat_id ?m r then answer_update row q score r else r)"
    by (simp add: answer_update_def fun_eq_iff)
  have table: "questionnaires ?s' = map ?upd (questionnaires s)"
    unfolding upd using assms int by (simp add: process_answer_table)
  have processed: "processed_meetings ?s' = processed_meetings s"
    by (rule process_answer_processed)
  have off: "offset ?s' = offset s"
    by (auto simp: process_answer_def Let_def andthen_cases call_eq emit_fields
        update_where_fields update_answers_def update_completed_def lift_def ret_def
        edit_telegram_message_def get_meeting_summary_def save_feedback_to_notion_def
        mark_notion_meeting_completed_def
        split: option.splits sum.splits prod.splits)
  have row: "row \<in> set (questionnaires s)" "has_key chat_id ?m row" "q_status row = InProgress"
    using select_in_table [OF assms] by (simp_all add: has_key_def)
  have "?upd row \<in> ?upd ` set (questionnaires s)"
    using row(1) by (rule imageI)
  then have mem: "?upd row \<in> set (questionnaires ?s')"
    unfolding table by (simp only: set_map)
  have eq: "?upd row = row\<lparr>q_answers := ?stored,
      q_status := (if ?n \<le> 5 then InProgress else Completed),
      q_current_question := ?n\<rparr>"
    using row(2,3) by simp
  have member: "row\<lparr>q_answers := ?stored,
      q_status := (if ?n \<le> 5 then InProgress else Completed),
      q_current_question := ?n\<rparr> \<in> set (questionnaires ?s')"
    using mem by (simp only: eq)
  have readback: "map_of (json_loads ?stored) (KStr (str_int q)) = Some score"
    by (simp add: stored_answer)
  have edit: "fst ?result =
        w_edit w (length (trace s) + 1) chat_id message_id
          (QuestionText (questions ! nat (?n - 1)))
          (Some (generate_question_keyboard ?n chat_id ?m)) \<and>
      trace ?s' = trace s @
        [DbSetAnswers chat_id ?m ?stored ?n,
         TgEdit chat_id message_id (QuestionText (questions ! nat (?n - 1)))
           (Some (generate_question_keyboard ?n chat_id ?m))
           (w_edit w (length (trace s) + 1) chat_id message_id
              (QuestionText (questions ! nat (?n - 1)))
              (Some (generate_question_keyboard ?n chat_id ?m)))]"
    if "1 \<le> ?n" and "?n \<le> 5"
    using process_answer_next_question [OF assms that, of w q score message_id] by simp
  show ?thesis
    unfolding Let_def using int table processed off member readback edit by simp
qed

theorem answer_accepted_whatever_index_witness:
  "select_chat_status ''123'' InProgress (questionnaires started) = Some started_row \<and>
   q_current_question started_row = 1 \<and>
   questionnaires (snd (process_answer reliable ''123'' 3 5 2 started)) =
     [started_row\<lparr>q_answers := [(''3'', 5)], q_current_question := 2\<rparr>] \<and>
   trace (snd (process_answer reliable ''123'' 3 5 2 started)) =
     [DbSetAnswers ''123'' ''mid'' [(''3'', 5)] 2,
      TgEdit ''123'' 2 (QuestionText QResponseSpeed)
        (Some (generate_question_keyboard 2 ''123'' ''mid'')) (Inr ())]"
proof -
  let ?s' = "snd (process_answer reliable ''123'' 3 5 2 started)"
  let ?stored = "json_dumps (dict_set (json_loads (q_answers started_row)) (KInt 3) 5)"
  let ?n = "q_current_question started_row + 1"
  have h: "select_chat_status ''123'' InProgress (questionnaires started) = Some started_row"
    by code_simp
  have cq: "q_current_question started_row = 1"
    by (simp add: started_row_def)
  have n: "sqlite_integer ?n = True" "(1 \<le> ?n \<and> ?n \<le> 5) = True"
    by (simp_all add: cq sqlite_integer_def)
  note t = answer_accepted_whatever_index [OF h, of reliable 3 5 2, unfolded Let_def n if_True]
  have table: "questionnaires ?s' =
      map (\<lambda>r. if has_key ''123'' (q_meeting_id started_row) r
               then r\<lparr>q_answers := ?stored,
                      q_status := (if ?n \<le> 5 then q_status r else Completed),
                      q_current_question := ?n\<rparr>
               else r)
          (questionnaires started)"
    using t by (elim conjE)
  have steps: "trace ?s' = trace started @
      [DbSetAnswers ''123'' (q_meeting_id started_row) ?stored ?n,
       TgEdit ''123'' 2 (QuestionText (questions ! nat (?n - 1)))
         (Some (generate_question_keyboard ?n ''123'' (q_meeting_id started_row)))
         (w_edit reliable (length (trace started) + 1) ''123'' 2
            (QuestionText (questions ! nat (?n - 1)))
            (Some (generate_question_keyboard ?n ''123'' (q_meeting_id started_row))))]"
    using t by (elim conjE)
  have stored: "?stored = [(''3'', 5)]"
    by code_simp
  have fields: "q_meeting_id started_row = ''mid''" "q_chat_id started_row = ''123''"
    "questionnaires started = [started_row]" "trace started = []"
    "q_status started_row = InProgress"
    by (simp_all add: started_row_def pending_row_def started_def discovered_def)
  have "questionnaires ?s' =
      [started_row\<lparr>q_answers := [(''3'', 5)], q_current_question := 2\<rparr>]"
    unfolding table stored by (simp add: fields cq has_key_def)
  moreover have "trace ?s' =
     [DbSetAnswers ''123'' ''mid'' [(''3'', 5)] 2,
      TgEdit ''123'' 2 (QuestionText QResponseSpeed)
        (Some (generate_question_keyboard 2 ''123'' ''mid'')) (Inr ())]"
    unfolding steps stored by (simp add: fields cq questions_def reliable_def)
  ultimately show ?thesis
    using h cq by (intro conjI)
qed

text \<open>
  C1 as stated fails: the questionnaire is in progress at question 1, the event cites
  question 3, and yet the answer is stored and the questionnaire moves to question 2.
\<close>

theorem stale_answer_is_accepted:
  "questionnaires started = [started_row] \<and> q_status started_row = InProgress \<and>
   q_chat_id started_row = ''123'' \<and> q_current_question started_row = 1 \<and>
   questionnaires (snd (process_answer reliable ''123'' 3 5 2 started)) =
     [started_row\<lparr>q_answers := [(''3'', 5)], q_current_question := 2\<rparr>] \<and>
   questionnaires (snd (process_answer reliable ''123'' 3 5 2 started)) \<noteq>
     questionnaires started \<and>
   trace (snd (process_answer reliable ''123'' 3 5 2 started)) \<noteq> trace started"
  by code_simp

section \<open>Progress through the questions\<close>

lemma select_after_answer:
  assumes "select_chat_status chat_id InProgress (questionnaires s) = Some row"
    and "0 \<le> q_current_question row" and "q_current_question row + 1 \<le> 5"
  shows "select_chat_status chat_id InProgress
           (questionnaires (snd (process_answer w chat_id q score message_id s))) =
         Some (answer_update row q score row)"
proof -
  let ?upd = "\<lambda>r. if has_key chat_id (q_meeting_id row) r then answer_update row q score r else r"
  have int: "sqlite_integer (q_current_question row + 1)"
    using assms(2,3) by (simp add: sqlite_integer_def)
  have key: "has_key chat_id (q_meeting_id row) row"
    using select_in_table [OF assms(1)] by (simp add: has_key_def)
  have "select_chat_status chat_id InProgress (map ?upd (questionnaires s)) =
          map_option ?upd (select_chat_status chat_id InProgress (questionnaires s))"
    using assms(3) by (intro select_map) (simp_all add: answer_update_fields)
  then show ?thesis
    using assms(1) key int by (simp add: process_answer_table)
qed

lemma answered_rows:
  assumes "select_chat_status chat_id InProgress (questionnaires s) = Some row"
    and "sqlite_integer (q_current_question row + 1)"
    and "r \<in> set (questionnaires (snd (process_answer w chat_id q score message_id s)))"
    and "has_key chat_id (q_meeting_id row) r"
  shows "\<exists>r0. r = answer_update row q score r0"
proof -
  let ?upd = "\<lambda>r. if has_key chat_id (q_meeting_id row) r then answer_update row q score r else r"
  have "r \<in> ?upd ` set (questionnaires s)"
    using assms(1,2,3) by (simp add: process_answer_table)
  then obtain r0 where r0: "r = ?upd r0"
    by blast
  have "has_key chat_id (q_meeting_id row) r0"
    using assms(4) r0 by (simp add: has_key_answer_update split: if_splits)
  then show ?thesis
    using r0 by auto
qed

lemma answered_row_exists:
  assumes "select_chat_status chat_id InProgress (questionnaires s) = Some row"
    and "sqlite_integer (q_current_question row + 1)"
  shows "\<exists>r \<in> set (questionnaires (snd (process_answer w chat_id q score message_id s))).
           has_key chat_id (q_meeting_id row) r"
proof -
  let ?upd = "\<lambda>r. if has_key chat_id (q_meeting_id row) r then answer_update row q score r else r"
  have row: "row \<in> set (questionnaires s)" "has_key chat_id (q_meeting_id row) row"
    using select_in_table [OF assms(1)] by (simp_all add: has_key_def)
  have "?upd row \<in> set (questionnaires (snd (process_answer w chat_id q score message_id s)))"
    using assms row(1) by (simp add: process_answer_table)
  moreover have "has_key chat_id (q_meeting_id row) (?upd row)"
    using row(2) by (simp add: has_key_answer_update)
  ultimately show ?thesis
    by (rule bexI [rotated])
qed

lemma process_answers_run:
  assumes "select_chat_status chat_id InProgress (questionnaires s) = Some row"
    and "0 \<le> q_current_question row"
    and "q_current_question row + int (length evs) \<le> 5"
  shows "(\<exists>r \<in> set (questionnaires (process_answers w chat_id (ev # evs) s)).
            has_key chat_id (q_meeting_id row) r) \<and>
         (\<forall>r \<in> set (questionnaires (process_answers w chat_id (ev # evs) s)).
            has_key chat_id (q_meeting_id row) r \<longrightarrow>
              q_current_question r = q_current_question row + 1 + int (length evs) \<and>
              fst ` set (q_answers r) =
                fst ` set (q_answers row) \<union> str_int ` fst ` set (ev # evs))"
  using assms
proof (induction evs arbitrary: s row ev)
  case Nil
  obtain q p i where ev: "ev = (q, p, i)" by (cases ev)
  have int: "sqlite_integer (q_current_question row + 1)"
    using Nil.prems(2,3) by (simp add: sqlite_integer_def)
  have "\<forall>r \<in> set (questionnaires (snd (process_answer w chat_id q p i s))).
          has_key chat_id (q_meeting_id row) r \<longrightarrow>
            q_current_question r = q_current_question row + 1 \<and>
            fst ` set (q_answers r) = insert (str_int q) (fst ` set (q_answers row))"
  proof (intro ballI impI)
    fix r
    assume "r \<in> set (questionnaires (snd (process_answer w chat_id q p i s)))"
      and "has_key chat_id (q_meeting_id row) r"
    then obtain r0 where "r = answer_update row q p r0"
      using answered_rows [OF Nil.prems(1) int] by blast
    then show "q_current_question r = q_current_question row + 1 \<and>
               fst ` set (q_answers r) = insert (str_int q) (fst ` set (q_answers row))"
      by (simp add: answer_update_fields stored_keys)
  qed
  then show ?case
    using answered_row_exists [OF Nil.prems(1) int, of w q p i] ev by simp
next
  case (Cons e2 evs)
  obtain q p i where ev: "ev = (q, p, i)" by (cases ev)
  let ?s1 = "snd (process_answer w chat_id q p i s)"
  let ?row1 = "answer_update row q p row"
  have small: "q_current_question row + 1 \<le> 5"
    using Cons.prems(3) by simp
  have found: "select_chat_status chat_id InProgress (questionnaires ?s1) = Some ?row1"
    using select_after_answer [OF Cons.prems(1,2) small] .
  have low: "0 \<le> q_current_question ?row1"
    using Cons.prems(2) by (simp add: answer_update_fields)
  have bound: "q_current_question ?row1 + int (length evs) \<le> 5"
    using Cons.prems(3) by (simp add: answer_update_fields)
  have step: "process_answers w chat_id (ev # e2 # evs) s = process_answers w chat_id (e2 # evs) ?s1"
    using ev by simp
  have keys1: "fst ` set (q_answers ?row1) = insert (str_int q) (fst ` set (q_answers row))"
    by (simp add: answer_update_fields stored_keys)
  from Cons.IH [OF found low bound, of e2]
  show ?case
    unfolding step using ev keys1 by (auto simp: answer_update_fields)
qed

lemma int_image_upto: "int ` {1..<n + 1} = {1..int n}"
proof -
  have "int ` {1..<n + 1} = {int 1..<int (n + 1)}"
    by (rule image_int_atLeastLessThan)
  also have "\<dots> = {1..int n}"
    by auto
  finally show ?thesis .
qed

text \<open>
  C2, as the code has it. Let \<open>row\<close> be the questionnaire that the answer events of a
  chat reach, that is, the one that \<^verbatim>\<open>process_answer\<close> selects: of the questionnaires in
  progress of the chat, the one with the least meeting id. If \<open>row\<close> was just started
  (\<^verbatim>\<open>current_question\<close> is 1 and no answer is stored), then after \<open>k\<close> answer events of
  the chat (\<open>1 \<le> k \<le> 5\<close>) the table has a row with the key of \<open>row\<close>, and in every
  such row \<^verbatim>\<open>current_question\<close> is \<open>k + 1\<close> and the keys of the stored answers are the
  question indices that the events cited, whatever they were. The keys are exactly
  \<open>1, ..., k\<close> when the events cited the questions \<open>1, ..., k\<close> in order, that is,
  when each answer cited the question that was current. (A questionnaire in progress of
  the chat that is not the selected one receives none of the answers.)
\<close>

theorem answers_follow_the_events:
  assumes "select_chat_status chat_id InProgress (questionnaires s) =
             Some row"
    and "q_current_question row = 1" and "q_answers row = []"
    and "evs \<noteq> []" and "length evs \<le> 5"
  shows "(\<exists>r \<in> set (questionnaires (process_answers w chat_id evs s)).
            has_key chat_id (q_meeting_id row) r) \<and>
         (\<forall>r \<in> set (questionnaires (process_answers w chat_id evs s)).
            has_key chat_id (q_meeting_id row) r \<longrightarrow>
              q_current_question r = int (length evs) + 1 \<and>
              fst ` set (q_answers r) = str_int ` fst ` set evs \<and>
              (map fst evs = map int [1..<length evs + 1] \<longrightarrow>
                 fst ` set (q_answers r) = str_int ` {1..int (length evs)}))"
proof -
  obtain ev evs' where evs: "evs = ev # evs'"
    using assms(4) by (cases evs) auto
  have low: "0 \<le> q_current_question row"
    using assms(2) by simp
  have bound: "q_current_question row + int (length evs') \<le> 5"
    using assms(2,5) evs by simp
  have ordered: "map fst evs = map int [1..<length evs + 1] \<Longrightarrow>
                 fst ` set evs = {1..int (length evs)}"
  proof -
    assume a: "map fst evs = map int [1..<length evs + 1]"
    have "fst ` set evs = set (map fst evs)"
      by simp
    also have "\<dots> = set (map int [1..<length evs + 1])"
      by (simp only: a)
    also have "\<dots> = int ` {1..<length evs + 1}"
      by (simp only: set_map set_upt)
    also have "\<dots> = {1..int (length evs)}"
      by (rule int_image_upto)
    finally show ?thesis .
  qed
  let ?rows = "set (questionnaires (process_answers w chat_id evs s))"
  have run:
    "(\<exists>r \<in> ?rows. has_key chat_id (q_meeting_id row) r) \<and>
     (\<forall>r \<in> ?rows. has_key chat_id (q_meeting_id row) r \<longrightarrow>
        q_current_question r = q_current_question row + 1 + int (length evs') \<and>
        fst ` set (q_answers r) = fst ` set (q_answers row) \<union> str_int ` fst ` set evs)"
    unfolding evs by (rule process_answers_run [OF assms(1) low bound])
  show ?thesis
  proof (intro conjI ballI impI)
    show "\<exists>r \<in> ?rows. has_key chat_id (q_meeting_id row) r"
      using run by (rule conjunct1)
  next
    fix r
    assume "r \<in> ?rows" and "has_key chat_id (q_meeting_id row) r"
    with run have "q_current_question r = q_current_question row + 1 + int (length evs')"
      by blast
    then show "q_current_question r = int (length evs) + 1"
      using assms(2) evs by simp
  next
    fix r
    assume "r \<in> ?rows" and "has_key chat_id (q_meeting_id row) r"
    with run have "fst ` set (q_answers r) =
                     fst ` set (q_answers row) \<union> str_int ` fst ` set evs"
      by blast
    then show "fst ` set (q_answers r) = str_int ` fst ` set evs"
      using assms(3) by simp
  next
    fix r
    assume "r \<in> ?rows" and "has_key chat_id (q_meeting_id row) r"
      and inorder: "map fst evs = map int [1..<length evs + 1]"
    with run have "fst ` set (q_answers r) =
                     fst ` set (q_answers row) \<union> str_int ` fst ` set evs"
      by blast
    then have "fst ` set (q_answers r) = str_int ` fst ` set evs"
      using assms(3) by simp
    then show "fst ` set (q_answers r) = str_int ` {1..int (length evs)}"
      by (simp only: ordered [OF inorder])
  qed
qed

theorem answers_follow_the_events_witness:
  "select_chat_status ''123'' InProgress (questionnaires started) =
     Some started_row \<and>
   q_current_question started_row = 1 \<and> q_answers started_row = [] \<and>
   [(1, 5, 2), (2, 4, 2)] \<noteq> ([] :: (int \<times> int \<times> int) list) \<and>
   length [(1 :: int, 5 :: int, 2 :: int), (2, 4, 2)] \<le> 5 \<and>
   (\<exists>r \<in> set (questionnaires (process_answers reliable ''123'' [(1, 5, 2), (2, 4, 2)] started)).
      has_key ''123'' (q_meeting_id started_row) r \<and>
      q_current_question r = 3 \<and>
      fst ` set (q_answers r) = str_int ` {1, 2})"
proof -
  have h: "select_chat_status ''123'' InProgress (questionnaires started) = Some started_row"
    by code_simp
  have c: "q_current_question started_row = 1" "q_answers started_row = []"
    by (simp_all add: started_row_def pending_row_def)
  have n: "[(1, 5, 2), (2, 4, 2)] \<noteq> ([] :: (int \<times> int \<times> int) list)"
          "length [(1 :: int, 5 :: int, 2 :: int), (2, 4, 2)] \<le> 5"
    by simp_all
  let ?rows = "set (questionnaires (process_answers reliable ''123'' [(1, 5, 2), (2, 4, 2)] started))"
  from answers_follow_the_events [OF h c n, of reliable]
  have ex: "\<exists>r \<in> ?rows. has_key ''123'' (q_meeting_id started_row) r"
    and all: "\<forall>r \<in> ?rows. has_key ''123'' (q_meeting_id started_row) r \<longrightarrow>
                q_current_question r = 3 \<and> fst ` set (q_answers r) = str_int ` {1, 2}"
    by simp_all
  from ex all have "\<exists>r \<in> ?rows. has_key ''123'' (q_meeting_id started_row) r \<and>
                      q_current_question r = 3 \<and> fst ` set (q_answers r) = str_int ` {1, 2}"
    by blast
  then show ?thesis
    using h c n by blast
qed

text \<open>
  C2 as stated fails: the first answer that a started questionnaire accepts may cite
  question 2. Then \<^verbatim>\<open>current_question\<close> is 2, and the only key of the answers is 2, which
  is neither \<open>{1}\<close> nor a prefix of the questions up to the current one.
\<close>

theorem first_answer_may_cite_any_question:
  "questionnaires started = [started_row] \<and> q_current_question started_row = 1 \<and>
   q_answers started_row = [] \<and>
   map q_current_question (questionnaires (process_answers reliable ''123'' [(2, 4, 2)] started)) =
     [2] \<and>
   map (map fst \<circ> q_answers) (questionnaires (process_answers reliable ''123'' [(2, 4, 2)] started)) =
     [[''2'']] \<and>
   ''2'' \<noteq> str_int 1"
  by code_simp

section \<open>The status of a questionnaire only moves forward\<close>

lemma one_step_rank: "one_step a b \<Longrightarrow> status_rank a \<le> status_rank b"
  by (auto simp: one_step_def)

lemma table_step_refl: "table_step rows rows"
  by (auto simp: table_step_def one_step_def)

lemma table_step_never_backward: "table_step rows rows' \<Longrightarrow> never_backward rows rows'"
  by (simp add: table_step_def never_backward_def one_step_rank)

lemma never_backward_refl: "never_backward rows rows"
  by (simp add: never_backward_def)

lemma never_backward_trans:
  assumes "never_backward a b" and "never_backward b c"
  shows "never_backward a c"
  unfolding never_backward_def
proof (intro conjI allI impI)
  show "length a \<le> length c"
    using assms by (simp add: never_backward_def)
next
  fix i assume i: "i < length a"
  then have ib: "i < length b"
    using assms(1) by (simp add: never_backward_def)
  show "row_key (c ! i) = row_key (a ! i)"
    using assms i ib by (simp add: never_backward_def)
  have "status_rank (q_status (a ! i)) \<le> status_rank (q_status (b ! i))"
    using assms(1) i by (simp add: never_backward_def)
  also have "\<dots> \<le> status_rank (q_status (c ! i))"
    using assms(2) ib by (simp add: never_backward_def)
  finally show "status_rank (q_status (a ! i)) \<le> status_rank (q_status (c ! i))" .
qed

lemma update_found_step:
  assumes "distinct (map row_key rows)" and "row \<in> set rows" and "has_key c m row"
    and "\<And>r. row_key (f r) = row_key r"
    and "one_step (q_status row) (q_status (f row))"
  shows "table_step rows (map (\<lambda>r. if has_key c m r then f r else r) rows)"
  unfolding table_step_def
proof (intro conjI allI impI)
  fix i assume i: "i < length rows"
  show "row_key (map (\<lambda>r. if has_key c m r then f r else r) rows ! i) = row_key (rows ! i)"
    using i assms(4) by simp
  show "one_step (q_status (rows ! i))
          (q_status (map (\<lambda>r. if has_key c m r then f r else r) rows ! i))"
  proof (cases "has_key c m (rows ! i)")
    case True
    have "rows ! i = row"
    proof (rule unique_row [OF assms(1)])
      show "rows ! i \<in> set rows" using i by simp
      show "row \<in> set rows" by (rule assms(2))
      show "row_key (rows ! i) = row_key row"
        using True assms(3) by (simp add: has_key_row_key)
    qed
    then show ?thesis
      using i True assms(5) by simp
  next
    case False
    then show ?thesis
      using i by (simp add: one_step_def)
  qed
qed auto

lemma create_step:
  assumes "distinct (keys s)"
  shows "distinct (keys (snd (process_meeting w m s))) \<and>
         table_step (questionnaires s) (questionnaires (snd (process_meeting w m s)))"
proof -
  let ?rows = "questionnaires s"
  let ?rows' = "questionnaires (snd (process_meeting w m s))"
  from process_meeting_table [of w m s]
  consider (same) "?rows' = ?rows"
    | (new) r where "?rows' = ?rows @ [r]" "q_status r = Pending"
        "\<forall>x \<in> set ?rows. \<not> has_key (q_chat_id r) (q_meeting_id r) x"
    by blast
  then show ?thesis
  proof cases
    case same
    then show ?thesis
      using assms by (simp add: keys_def table_step_refl)
  next
    case new
    have "row_key r \<notin> row_key ` set ?rows"
      using new(3) by (auto simp: has_key_row_key row_key_def)
    then have "distinct (keys (snd (process_meeting w m s)))"
      using assms new(1) by (simp add: keys_def)
    moreover have "table_step ?rows ?rows'"
      unfolding new(1) table_step_def
      using new(2) by (auto simp: nth_append one_step_def less_Suc_eq)
    ultimately show ?thesis ..
  qed
qed

lemma start_step:
  assumes "distinct (keys s)"
  shows "distinct (keys (snd (start_questionnaire w c n i s))) \<and>
         table_step (questionnaires s) (questionnaires (snd (start_questionnaire w c n i s)))"
proof (cases "select_chat_status c Pending (questionnaires s)")
  case None
  then show ?thesis
    using assms by (simp add: start_questionnaire_table keys_def table_step_refl)
next
  case (Some row)
  have row: "row \<in> set (questionnaires s)" "has_key c (q_meeting_id row) row"
    "q_status row = Pending"
    using select_in_table [OF Some] by (simp_all add: has_key_def)
  have d: "distinct (map row_key (questionnaires s))"
    using assms by (simp add: keys_def)
  have st: "one_step (q_status row) (q_status (start_update row))"
    using row(3) by (simp add: one_step_def start_update_fields)
  have "table_step (questionnaires s)
          (map (\<lambda>r. if has_key c (q_meeting_id row) r then start_update r else r)
             (questionnaires s))"
    by (rule update_found_step [where f = start_update, OF d row(1) row(2) _ st])
      (rule row_key_updates)
  moreover have tab: "questionnaires (snd (start_questionnaire w c n i s)) =
      map (\<lambda>r. if has_key c (q_meeting_id row) r then start_update r else r) (questionnaires s)"
    using Some by (simp add: start_questionnaire_table)
  moreover have "keys (snd (start_questionnaire w c n i s)) = keys s"
    unfolding keys_def tab by (rule update_keeps_keys) (rule row_key_updates)
  ultimately show ?thesis
    using assms by simp
qed

lemma answer_step:
  assumes "distinct (keys s)"
  shows "distinct (keys (snd (process_answer w c q p i s))) \<and>
         table_step (questionnaires s) (questionnaires (snd (process_answer w c q p i s)))"
proof (cases "select_chat_status c InProgress (questionnaires s)")
  case None
  then show ?thesis
    using assms by (simp add: process_answer_table keys_def table_step_refl)
next
  case (Some row)
  have row: "row \<in> set (questionnaires s)" "has_key c (q_meeting_id row) row"
    "q_status row = InProgress"
    using select_in_table [OF Some] by (simp_all add: has_key_def)
  have d: "distinct (map row_key (questionnaires s))"
    using assms by (simp add: keys_def)
  have st: "one_step (q_status row) (q_status (answer_update row q p row))"
    using row(3) by (simp add: one_step_def answer_update_fields)
  have "table_step (questionnaires s)
          (map (\<lambda>r. if has_key c (q_meeting_id row) r then answer_update row q p r else r)
             (questionnaires s))"
    by (rule update_found_step [where f = "answer_update row q p", OF d row(1) row(2) _ st])
      (rule row_key_updates)
  then have moved: "table_step (questionnaires s)
      (if sqlite_integer (q_current_question row + 1)
       then map (\<lambda>r. if has_key c (q_meeting_id row) r then answer_update row q p r else r)
              (questionnaires s)
       else questionnaires s)"
    by (simp add: table_step_refl)
  have tab: "questionnaires (snd (process_answer w c q p i s)) =
      (if sqlite_integer (q_current_question row + 1)
       then map (\<lambda>r. if has_key c (q_meeting_id row) r then answer_update row q p r else r)
              (questionnaires s)
       else questionnaires s)"
    using Some by (simp add: process_answer_table)
  have "map row_key
          (map (\<lambda>r. if has_key c (q_meeting_id row) r then answer_update row q p r else r)
             (questionnaires s)) = map row_key (questionnaires s)"
    by (rule update_keeps_keys) (rule row_key_updates)
  then have "keys (snd (process_answer w c q p i s)) = keys s"
    unfolding keys_def tab by simp
  then show ?thesis
    using assms moved by (simp only: tab)
qed

lemma operation_step:
  assumes "distinct (keys s)"
  shows "distinct (keys (apply_operation w op s)) \<and>
         table_step (questionnaires s) (questionnaires (apply_operation w op s))"
  using create_step [OF assms] start_step [OF assms] answer_step [OF assms]
  by (cases op) (simp_all add: apply_operation_def)

lemma operations_run:
  assumes "distinct (keys s)"
  shows "distinct (keys (fold (apply_operation w) ops s)) \<and>
         never_backward (questionnaires s) (questionnaires (fold (apply_operation w) ops s))"
  using assms
proof (induction ops arbitrary: s)
  case Nil
  then show ?case by (simp add: never_backward_refl)
next
  case (Cons op ops)
  let ?s1 = "apply_operation w op s"
  have one: "distinct (keys ?s1)" "never_backward (questionnaires s) (questionnaires ?s1)"
    using operation_step [OF Cons.prems, of w op] by (simp_all add: table_step_never_backward)
  from Cons.IH [OF one(1)] one(2) show ?case
    by (auto intro: never_backward_trans)
qed

text \<open>
  C3. Along every sequence of operations (create, start, answer), from a table with the
  primary key it has in SQLite, every questionnaire stays in the table under its key and
  its status never moves backward; and a single operation leaves each status as it was or
  moves it to the next one (pending to in progress, in progress to completed), a row it
  adds being pending. So no operation skips a state.
\<close>

theorem status_only_moves_forward:
  assumes "distinct (keys s)"
  shows "never_backward (questionnaires s) (questionnaires (fold (apply_operation w) ops s)) \<and>
         table_step (questionnaires (fold (apply_operation w) ops s))
           (questionnaires (apply_operation w op (fold (apply_operation w) ops s)))"
proof -
  have run: "distinct (keys (fold (apply_operation w) ops s))"
    "never_backward (questionnaires s) (questionnaires (fold (apply_operation w) ops s))"
    using operations_run [OF assms, of w ops] by simp_all
  from operation_step [OF run(1), of w op] run(2) show ?thesis
    by simp
qed

theorem status_only_moves_forward_witness:
  "distinct (keys discovered) \<and>
   never_backward (questionnaires discovered)
     (questionnaires (fold (apply_operation reliable) [Start ''123'' [] 2] discovered)) \<and>
   table_step (questionnaires (fold (apply_operation reliable) [Start ''123'' [] 2] discovered))
     (questionnaires (apply_operation reliable (Answer ''123'' 1 5 2)
        (fold (apply_operation reliable) [Start ''123'' [] 2] discovered)))"
proof -
  have d: "distinct (keys discovered)"
    by (simp add: keys_def discovered_def)
  from status_only_moves_forward [OF d, of reliable "[Start ''123'' [] 2]" "Answer ''123'' 1 5 2"] d
  show ?thesis
    by (intro conjI) simp_all
qed

section \<open>Discovery of a meeting\<close>

lemma process_meeting_new_events:
  assumes "m_id m = Inr meeting_id" and "\<not> is_meeting_processed meeting_id s"
  shows "let s' = snd (process_meeting w m s); new = drop (length (trace s)) (trace s') in
           trace s' = trace s @ new \<and>
           ((new = [] \<or> (\<exists>p r. new = [NotionPageName p r])) \<and>
              questionnaires s' = questionnaires s \<and>
              processed_meetings s' = processed_meetings s
            \<or>
            (\<exists>p r c txt kb resp row.
               new = [NotionPageName p r, DbInsertQuestionnaire c meeting_id,
                      TgSend (ChatStr c) txt kb resp] \<and>
               (\<forall>i. resp = Inr (Some i) \<longrightarrow> \<not> sqlite_integer i) \<and>
               questionnaires s' = questionnaires s @ [row] \<and>
               has_key c meeting_id row \<and> q_status row = Pending \<and>
               q_current_question row = 0 \<and> q_answers row = [] \<and>
               processed_meetings s' = processed_meetings s)
            \<or>
            (\<exists>p r c txt kb i row.
               new = [NotionPageName p r, DbInsertQuestionnaire c meeting_id,
                      TgSend (ChatStr c) txt kb (Inr (Some i)),
                      DbSetLastMessage c meeting_id i, DbMarkProcessed meeting_id] \<and>
               questionnaires s' = questionnaires s @ [row] \<and>
               has_key c meeting_id row \<and> q_status row = Pending \<and>
               q_current_question row = 0 \<and> q_answers row = [] \<and>
               q_last_message_id row = Some i \<and>
               processed_meetings s' = processed_meetings s @ [meeting_id]))"
  using assms
  by (auto simp: process_meeting_def andthen_def lift_def ret_def Let_def
      get_notion_page_name_def call_eq emit_fields save_questionnaire_def
      send_initial_message_def send_telegram_message_def update_last_message_id_def
      update_where_fields mark_meeting_processed_def update_absent
      is_meeting_processed_def has_key_def update_absent_fields
      split: sum.splits prod.splits option.splits)

lemma process_meeting_row_exists:
  assumes "m_id m = Inr meeting_id" and "\<not> is_meeting_processed meeting_id s"
    and "m_properties m = Inr ()" and "m_name m = Inr name" and "m_mentor m = Inr relation"
    and "m_student m = Inr student" and "m_chat_id m = Inr c"
    and "w_page_name w (length (trace s)) relation = Inr mentor"
    and "\<exists>x \<in> set (questionnaires s). has_key c meeting_id x"
  shows "process_meeting w m s =
           (Inl IntegrityError, s\<lparr>trace := trace s @ [NotionPageName relation (Inr mentor)]\<rparr>)"
  using assms
  by (simp add: process_meeting_def andthen_def lift_def ret_def
      get_notion_page_name_def call_eq emit_def save_questionnaire_def
      is_meeting_processed_def)

lemma process_meeting_success:
  assumes "m_id m = Inr meeting_id" and "\<not> is_meeting_processed meeting_id s"
    and "m_properties m = Inr ()" and "m_name m = Inr name" and "m_mentor m = Inr relation"
    and "m_student m = Inr student" and "m_chat_id m = Inr c"
    and "w_page_name w (length (trace s)) relation = Inr mentor"
    and "\<not> (\<exists>x \<in> set (questionnaires s). has_key c meeting_id x)"
    and "w_send w (length (trace s) + 2) (ChatStr c) (InitialPrompt name mentor)
           (Some [(StartLabel, ''start,'' @ c @ '','' @ name)]) = Inr (Some i)"
    and "sqlite_integer i"
  shows "process_meeting w m s =
           (Inr (),
            s\<lparr>questionnaires := questionnaires s @
                 [\<lparr>q_chat_id = c, q_meeting_id = meeting_id, q_meeting_name = name,
                   q_student_id = student, q_status = Pending, q_current_question = 0,
                   q_answers = [], q_last_message_id = Some i\<rparr>],
              processed_meetings := processed_meetings s @ [meeting_id],
              trace := trace s @
                [NotionPageName relation (Inr mentor), DbInsertQuestionnaire c meeting_id,
                 TgSend (ChatStr c) (InitialPrompt name mentor)
                   (Some [(StartLabel, ''start,'' @ c @ '','' @ name)]) (Inr (Some i)),
                 DbSetLastMessage c meeting_id i, DbMarkProcessed meeting_id]\<rparr>)"
proof -
  have absent: "map (\<lambda>r. if has_key c meeting_id r then r\<lparr>q_last_message_id := Some i\<rparr> else r)
                  (questionnaires s) = questionnaires s"
    using assms(9) by (intro update_absent) simp
  show ?thesis
    using assms absent
    by (simp add: process_meeting_def andthen_def lift_def ret_def
        get_notion_page_name_def call_eq emit_def save_questionnaire_def
        send_initial_message_def send_telegram_message_def update_last_message_id_def
        update_where_def mark_meeting_processed_def is_meeting_processed_def)
      (simp add: has_key_def)
qed

lemma process_meeting_no_reference:
  assumes "m_id m = Inr meeting_id" and "\<not> is_meeting_processed meeting_id s"
    and "m_properties m = Inr ()" and "m_name m = Inr name" and "m_mentor m = Inr relation"
    and "m_student m = Inr student" and "m_chat_id m = Inr c"
    and "w_page_name w (length (trace s)) relation = Inr mentor"
    and "\<not> (\<exists>x \<in> set (questionnaires s). has_key c meeting_id x)"
    and "w_send w (length (trace s) + 2) (ChatStr c) (InitialPrompt name mentor)
           (Some [(StartLabel, ''start,'' @ c @ '','' @ name)]) = resp"
    and "\<not> (\<exists>i. resp = Inr (Some i) \<and> sqlite_integer i)"
  shows "process_meeting w m s =
           (case resp of Inl e \<Rightarrow> Inl e | Inr None \<Rightarrow> Inl KeyError
                       | Inr (Some i) \<Rightarrow> Inl OverflowError,
            s\<lparr>questionnaires := questionnaires s @
                 [\<lparr>q_chat_id = c, q_meeting_id = meeting_id, q_meeting_name = name,
                   q_student_id = student, q_status = Pending, q_current_question = 0,
                   q_answers = [], q_last_message_id = None\<rparr>],
              trace := trace s @
                [NotionPageName relation (Inr mentor), DbInsertQuestionnaire c meeting_id,
                 TgSend (ChatStr c) (InitialPrompt name mentor)
                   (Some [(StartLabel, ''start,'' @ c @ '','' @ name)]) resp]\<rparr>)"
  using assms
  by (simp add: process_meeting_def andthen_def lift_def ret_def
      get_notion_page_name_def call_eq emit_def save_questionnaire_def
      send_initial_message_def send_telegram_message_def update_last_message_id_def
      is_meeting_processed_def
      split: sum.splits option.splits)

text \<open>
  C4, as the code has it. For a meeting that is not in \<^verbatim>\<open>processed_meetings\<close>, the events of
  \<^verbatim>\<open>process_meeting\<close> are, in this order: the look-up of the mentor's name, (a) the insert
  of a row that is pending at question 0 with no answers, (b) the send of the initial
  prompt, (c) the update of \<^verbatim>\<open>last_message_id\<close> with the reference that the send returned,
  (d) the insert into \<^verbatim>\<open>processed_meetings\<close>; a step that raises ends the sequence, so the
  meeting is marked only in a trace in which the send has returned a message reference.
  Not every such meeting goes through the steps, though. When no field is missing and
  the look-up answers, the outcome is exactly this: if the table already has a row under
  the key of the meeting (as it has after a cycle in which the send failed), the insert
  raises \<^verbatim>\<open>IntegrityError\<close> and none of the steps (a) to (d) takes place; if it has none,
  (a) and (b) take place, and (c) and (d) follow exactly when the send returns a message
  reference that fits an SQLite integer; otherwise the row stays without reference and
  the meeting unmarked.
\<close>

theorem discovery_steps_in_order:
  assumes "m_id m = Inr meeting_id" and "\<not> is_meeting_processed meeting_id s"
  shows "let s' = snd (process_meeting w m s); new = drop (length (trace s)) (trace s');
             prompt = InitialPrompt name mentor;
             keyboard = Some [(StartLabel, ''start,'' @ c @ '','' @ name)];
             resp = w_send w (length (trace s) + 2) (ChatStr c) prompt keyboard;
             lookup = NotionPageName relation (Inr mentor);
             inserted = questionnaires s @
               [\<lparr>q_chat_id = c, q_meeting_id = meeting_id, q_meeting_name = name,
                 q_student_id = student, q_status = Pending, q_current_question = 0,
                 q_answers = [], q_last_message_id = None\<rparr>];
             unmarked = s\<lparr>questionnaires := inserted,
                          trace := trace s @ [lookup, DbInsertQuestionnaire c meeting_id,
                                              TgSend (ChatStr c) prompt keyboard resp]\<rparr>
         in
           trace s' = trace s @ new \<and>
           ((new = [] \<or> (\<exists>p r. new = [NotionPageName p r])) \<and>
              questionnaires s' = questionnaires s \<and>
              processed_meetings s' = processed_meetings s
            \<or>
            (\<exists>p r c txt kb resp row.
               new = [NotionPageName p r, DbInsertQuestionnaire c meeting_id,
                      TgSend (ChatStr c) txt kb resp] \<and>
               (\<forall>i. resp = Inr (Some i) \<longrightarrow> \<not> sqlite_integer i) \<and>
               questionnaires s' = questionnaires s @ [row] \<and>
               has_key c meeting_id row \<and> q_status row = Pending \<and>
               q_current_question row = 0 \<and> q_answers row = [] \<and>
               processed_meetings s' = processed_meetings s)
            \<or>
            (\<exists>p r c txt kb i row.
               new = [NotionPageName p r, DbInsertQuestionnaire c meeting_id,
                      TgSend (ChatStr c) txt kb (Inr (Some i)),
                      DbSetLastMessage c meeting_id i, DbMarkProcessed meeting_id] \<and>
               questionnaires s' = questionnaires s @ [row] \<and>
               has_key c meeting_id row \<and> q_status row = Pending \<and>
               q_current_question row = 0 \<and> q_answers row = [] \<and>
               q_last_message_id row = Some i \<and>
               processed_meetings s' = processed_meetings s @ [meeting_id])) \<and>
           (m_properties m = Inr () \<and> m_name m = Inr name \<and> m_mentor m = Inr relation \<and>
            m_student m = Inr student \<and> m_chat_id m = Inr c \<and>
            w_page_name w (length (trace s)) relation = Inr mentor \<longrightarrow>
            process_meeting w m s =
              (if \<exists>x \<in> set (questionnaires s). has_key c meeting_id x then
                 (Inl IntegrityError, s\<lparr>trace := trace s @ [lookup]\<rparr>)
               else case resp of
                      Inl e \<Rightarrow> (Inl e, unmarked)
                    | Inr None \<Rightarrow> (Inl KeyError, unmarked)
                    | Inr (Some i) \<Rightarrow>
                        if sqlite_integer i then
                          (Inr (),
                           s\<lparr>questionnaires := questionnaires s @
                                [\<lparr>q_chat_id = c, q_meeting_id = meeting_id,
                                  q_meeting_name = name, q_student_id = student,
                                  q_status = Pending, q_current_question = 0,
                                  q_answers = [], q_last_message_id = Some i\<rparr>],
                             processed_meetings := processed_meetings s @ [meeting_id],
                             trace := trace s @
                               [lookup, DbInsertQuestionnaire c meeting_id,
                                TgSend (ChatStr c) prompt keyboard resp,
                                DbSetLastMessage c meeting_id i,
                                DbMarkProcessed meeting_id]\<rparr>)
                        else (Inl OverflowError, unmarked)))"
proof -
  note shapes = process_meeting_new_events [OF assms, of w, unfolded Let_def]
  let ?resp = "w_send w (length (trace s) + 2) (ChatStr c) (InitialPrompt name mentor)
                 (Some [(StartLabel, ''start,'' @ c @ '','' @ name)])"
  let ?lookup = "NotionPageName relation (Inr mentor)"
  let ?unmarked = "s\<lparr>questionnaires := questionnaires s @
       [\<lparr>q_chat_id = c, q_meeting_id = meeting_id, q_meeting_name = name,
         q_student_id = student, q_status = Pending, q_current_question = 0,
         q_answers = [], q_last_message_id = None\<rparr>],
     trace := trace s @ [?lookup, DbInsertQuestionnaire c meeting_id,
                         TgSend (ChatStr c) (InitialPrompt name mentor)
                           (Some [(StartLabel, ''start,'' @ c @ '','' @ name)]) ?resp]\<rparr>"
  have exact: "process_meeting w m s =
      (if \<exists>x \<in> set (questionnaires s). has_key c meeting_id x then
         (Inl IntegrityError, s\<lparr>trace := trace s @ [?lookup]\<rparr>)
       else case ?resp of
              Inl e \<Rightarrow> (Inl e, ?unmarked)
            | Inr None \<Rightarrow> (Inl KeyError, ?unmarked)
            | Inr (Some i) \<Rightarrow>
                if sqlite_integer i then
                  (Inr (),
                   s\<lparr>questionnaires := questionnaires s @
                        [\<lparr>q_chat_id = c, q_meeting_id = meeting_id,
                          q_meeting_name = name, q_student_id = student,
                          q_status = Pending, q_current_question = 0,
                          q_answers = [], q_last_message_id = Some i\<rparr>],
                     processed_meetings := processed_meetings s @ [meeting_id],
                     trace := trace s @
                       [?lookup, DbInsertQuestionnaire c meeting_id,
                        TgSend (ChatStr c) (InitialPrompt name mentor)
                          (Some [(StartLabel, ''start,'' @ c @ '','' @ name)]) ?resp,
                        DbSetLastMessage c meeting_id i,
                        DbMarkProcessed meeting_id]\<rparr>)
                else (Inl OverflowError, ?unmarked))"
    if fields: "m_properties m = Inr ()" "m_name m = Inr name" "m_mentor m = Inr relation"
      "m_student m = Inr student" "m_chat_id m = Inr c"
      "w_page_name w (length (trace s)) relation = Inr mentor"
  proof (cases "\<exists>x \<in> set (questionnaires s). has_key c meeting_id x")
    case True
    then show ?thesis
      using process_meeting_row_exists [OF assms fields True] by simp
  next
    case absent: False
    show ?thesis
    proof (cases "\<exists>i. ?resp = Inr (Some i) \<and> sqlite_integer i")
      case True
      then obtain i where i: "?resp = Inr (Some i)" "sqlite_integer i"
        by blast
      show ?thesis
        using process_meeting_success [OF assms fields absent i] absent i by simp
    next
      case False
      show ?thesis
        using process_meeting_no_reference [OF assms fields absent refl False] absent False
        by (auto split: sum.splits option.splits)
    qed
  qed
  show ?thesis
    unfolding Let_def using shapes exact by (intro conjI impI) (elim conjE, assumption)+
qed

theorem discovery_steps_in_order_witness:
  "m_id sprint_review = Inr ''mid'' \<and> \<not> is_meeting_processed ''mid'' init_database \<and>
   m_properties sprint_review = Inr () \<and> m_name sprint_review = Inr ''Sprint Review'' \<and>
   m_mentor sprint_review = Inr ''mentor-page'' \<and> m_student sprint_review = Inr ''student'' \<and>
   m_chat_id sprint_review = Inr ''123'' \<and>
   w_page_name reliable (length (trace init_database)) ''mentor-page'' = Inr ''Mentor'' \<and>
   process_meeting reliable sprint_review init_database =
     (Inr (),
      \<lparr>questionnaires = [pending_row], processed_meetings = [''mid''], offset = 0,
       trace =
         [NotionPageName ''mentor-page'' (Inr ''Mentor''), DbInsertQuestionnaire ''123'' ''mid'',
          TgSend (ChatStr ''123'') (InitialPrompt ''Sprint Review'' ''Mentor'')
            (Some [(StartLabel, ''start,123,Sprint Review'')]) (Inr (Some 2)),
          DbSetLastMessage ''123'' ''mid'' 2, DbMarkProcessed ''mid'']\<rparr>)"
proof -
  have a: "m_id sprint_review = Inr ''mid''"
    by (simp add: sprint_review_def)
  have b: "\<not> is_meeting_processed ''mid'' init_database"
    by (simp add: is_meeting_processed_def init_database_def)
  have c: "m_properties sprint_review = Inr () \<and> m_name sprint_review = Inr ''Sprint Review'' \<and>
      m_mentor sprint_review = Inr ''mentor-page'' \<and>
      m_student sprint_review = Inr ''student'' \<and> m_chat_id sprint_review = Inr ''123'' \<and>
      w_page_name reliable (length (trace init_database)) ''mentor-page'' = Inr ''Mentor''"
    by (simp add: sprint_review_def init_database_def reliable_def)
  note t = discovery_steps_in_order [OF a b, where w = reliable and name = "''Sprint Review''"
      and relation = "''mentor-page''" and student = "''student''" and c = "''123''"
      and mentor = "''Mentor''", unfolded Let_def, THEN conjunct2, THEN conjunct2, THEN mp, OF c]
  from t have "process_meeting reliable sprint_review init_database =
     (Inr (),
      \<lparr>questionnaires = [pending_row], processed_meetings = [''mid''], offset = 0,
       trace =
         [NotionPageName ''mentor-page'' (Inr ''Mentor''), DbInsertQuestionnaire ''123'' ''mid'',
          TgSend (ChatStr ''123'') (InitialPrompt ''Sprint Review'' ''Mentor'')
            (Some [(StartLabel, ''start,123,Sprint Review'')]) (Inr (Some 2)),
          DbSetLastMessage ''123'' ''mid'' 2, DbMarkProcessed ''mid'']\<rparr>)"
    by (simp add: init_database_def reliable_def pending_row_def sqlite_integer_def)
  with a b c show ?thesis
    by (intro conjI) (elim conjE, assumption)+
qed

text \<open>
  C4 as stated fails. After a discovery in which the send failed, the meeting is not in
  \<^verbatim>\<open>processed_meetings\<close> but its row is in the table. When the meeting is discovered
  again, with Telegram up, \<^verbatim>\<open>process_meeting\<close> performs none of the steps (a) to (d): the
  insert raises \<^verbatim>\<open>IntegrityError\<close>, no prompt is sent, and the meeting stays unmarked.
\<close>

theorem rediscovered_meeting_is_not_prompted:
  "questionnaires send_failed = [pending_row\<lparr>q_last_message_id := None\<rparr>] \<and>
   processed_meetings send_failed = [] \<and>
   m_id sprint_review = Inr ''mid'' \<and>
   \<not> is_meeting_processed ''mid'' send_failed \<and>
   process_meeting reliable sprint_review send_failed =
     (Inl IntegrityError,
      send_failed\<lparr>trace := trace send_failed @
        [NotionPageName ''mentor-page'' (Inr ''Mentor'')]\<rparr>)"
  by code_simp

section \<open>A processed meeting is skipped and keeps its one questionnaire\<close>

lemma has_key_update:
  "(\<And>r. row_key (f r) = row_key r) \<Longrightarrow>
   has_key c m (if has_key c' m' r then f r else r) = has_key c m r"
  by (simp add: has_key_row_key)

lemma count_update:
  assumes "\<And>r. row_key (f r) = row_key r"
  shows "length (filter (has_key c m) (map (\<lambda>r. if has_key c' m' r then f r else r) rows)) =
         length (filter (has_key c m) rows)"
proof (induction rows)
  case Nil
  show ?case by simp
next
  case (Cons r rows)
  have "has_key c m (if has_key c' m' r then f r else r) = has_key c m r"
    by (rule has_key_update) (rule assms)
  with Cons show ?case by simp
qed

lemma one_row_update:
  assumes "\<And>r. row_key (f r) = row_key r"
  shows "one_row c m (map (\<lambda>r. if has_key c' m' r then f r else r) rows) pm = one_row c m rows pm"
  by (simp only: one_row_def count_update [of f, OF assms])

lemma one_row_update_last_message_id:
  "preserves (one_row c m) (update_last_message_id c' m' i)"
  by (simp add: preserves_def update_last_message_id_def emit_fields update_where_fields
      one_row_update [of "\<lambda>r. r\<lparr>q_last_message_id := Some i\<rparr>", OF row_key_updates(3)])

lemma one_row_start: "preserves (one_row c m) (start_questionnaire w c' n i)"
  unfolding preserves_def
proof (intro allI impI)
  fix s :: state
  assume "one_row c m (questionnaires s) (processed_meetings s)"
  then show "one_row c m (questionnaires (snd (start_questionnaire w c' n i s)))
               (processed_meetings (snd (start_questionnaire w c' n i s)))"
    by (cases "select_chat_status c' Pending (questionnaires s)")
      (simp_all add: start_questionnaire_table start_questionnaire_processed
        one_row_update [of start_update, OF row_key_updates(2)])
qed

lemma one_row_answer: "preserves (one_row c m) (process_answer w c' q p i)"
  unfolding preserves_def
proof (intro allI impI)
  fix s :: state
  assume one: "one_row c m (questionnaires s) (processed_meetings s)"
  show "one_row c m (questionnaires (snd (process_answer w c' q p i s)))
          (processed_meetings (snd (process_answer w c' q p i s)))"
  proof (cases "select_chat_status c' InProgress (questionnaires s)")
    case None
    then show ?thesis
      using one by (simp add: process_answer_table process_answer_processed)
  next
    case (Some row)
    then show ?thesis
      using one
      by (simp add: process_answer_table process_answer_processed
          one_row_update [of "answer_update row q p", OF row_key_updates(1)])
  qed
qed

lemma one_row_process_meeting: "preserves (one_row c m) (process_meeting w m')"
  unfolding preserves_def
proof (intro allI impI)
  fix s :: state
  let ?s' = "snd (process_meeting w m' s)"
  assume one: "one_row c m (questionnaires s) (processed_meetings s)"
  have pm: "set (processed_meetings s) \<subseteq> set (processed_meetings ?s')"
    using process_meeting_table [of w m' s] by auto
  have rows: "questionnaires ?s' = questionnaires s \<or>
              (\<exists>r. questionnaires ?s' = questionnaires s @ [r] \<and>
                   \<not> is_meeting_processed (q_meeting_id r) s)"
    using process_meeting_table [of w m' s] by blast
  from rows show "one_row c m (questionnaires ?s') (processed_meetings ?s')"
  proof
    assume "questionnaires ?s' = questionnaires s"
    then show ?thesis
      using one pm by (auto simp: one_row_def)
  next
    assume "\<exists>r. questionnaires ?s' = questionnaires s @ [r] \<and>
                \<not> is_meeting_processed (q_meeting_id r) s"
    then obtain r where new: "questionnaires ?s' = questionnaires s @ [r]"
      "\<not> is_meeting_processed (q_meeting_id r) s"
      by blast
    have "q_meeting_id r \<noteq> m"
      using new(2) one by (auto simp: one_row_def is_meeting_processed_def)
    then have "\<not> has_key c m r"
      by (simp add: has_key_def)
    then show ?thesis
      using one new(1) pm by (auto simp: one_row_def)
  qed
qed

lemma one_row_start_schedule:
  assumes "one_row c m (questionnaires s) (processed_meetings s)"
  shows "one_row c m (questionnaires (start w schedule s))
           (processed_meetings (start w schedule s))"
  by (rule preserves_schedule [where Q = "one_row c m", OF one_row_process_meeting
        one_row_update_last_message_id one_row_start one_row_answer assms])

lemma consistent_keys:
  "consistent rows pm \<longleftrightarrow>
     distinct (map row_key rows) \<and> set pm \<subseteq> snd ` set (map row_key rows)"
  by (force simp: consistent_def row_key_def)

lemma consistent_update:
  assumes "\<And>r. row_key (f r) = row_key r"
  shows "consistent (map (\<lambda>r. if has_key c m r then f r else r) rows) pm = consistent rows pm"
  by (simp only: consistent_keys update_keeps_keys [of f, OF assms])

lemma consistent_update_last_message_id:
  "preserves consistent (update_last_message_id c m i)"
  by (simp add: preserves_def update_last_message_id_def emit_fields update_where_fields
      consistent_update [of "\<lambda>r. r\<lparr>q_last_message_id := Some i\<rparr>", OF row_key_updates(3)])

lemma consistent_start: "preserves consistent (start_questionnaire w c n i)"
  unfolding preserves_def
proof (intro allI impI)
  fix s :: state
  assume "consistent (questionnaires s) (processed_meetings s)"
  then show "consistent (questionnaires (snd (start_questionnaire w c n i s)))
               (processed_meetings (snd (start_questionnaire w c n i s)))"
    by (cases "select_chat_status c Pending (questionnaires s)")
      (simp_all add: start_questionnaire_table start_questionnaire_processed
        consistent_update [of start_update, OF row_key_updates(2)])
qed

lemma consistent_answer: "preserves consistent (process_answer w c q p i)"
  unfolding preserves_def
proof (intro allI impI)
  fix s :: state
  assume ok: "consistent (questionnaires s) (processed_meetings s)"
  show "consistent (questionnaires (snd (process_answer w c q p i s)))
          (processed_meetings (snd (process_answer w c q p i s)))"
  proof (cases "select_chat_status c InProgress (questionnaires s)")
    case None
    then show ?thesis
      using ok by (simp add: process_answer_table process_answer_processed)
  next
    case (Some row)
    then show ?thesis
      using ok
      by (simp add: process_answer_table process_answer_processed
          consistent_update [of "answer_update row q p", OF row_key_updates(1)])
  qed
qed

lemma consistent_process_meeting: "preserves consistent (process_meeting w m)"
  unfolding preserves_def
proof (intro allI impI)
  fix s :: state
  let ?s' = "snd (process_meeting w m s)"
  assume ok: "consistent (questionnaires s) (processed_meetings s)"
  from process_meeting_table [of w m s]
  show "consistent (questionnaires ?s') (processed_meetings ?s')"
  proof
    assume "questionnaires ?s' = questionnaires s \<and>
            processed_meetings ?s' = processed_meetings s"
    then show ?thesis
      using ok by simp
  next
    assume "\<exists>r. questionnaires ?s' = questionnaires s @ [r] \<and>
        q_status r = Pending \<and> q_current_question r = 0 \<and> q_answers r = [] \<and>
        m_chat_id m = Inr (q_chat_id r) \<and> m_id m = Inr (q_meeting_id r) \<and>
        (\<forall>x \<in> set (questionnaires s). \<not> has_key (q_chat_id r) (q_meeting_id r) x) \<and>
        \<not> is_meeting_processed (q_meeting_id r) s \<and>
        (processed_meetings ?s' = processed_meetings s \<or>
         processed_meetings ?s' = processed_meetings s @ [q_meeting_id r])"
    then obtain r where new: "questionnaires ?s' = questionnaires s @ [r]"
      "\<forall>x \<in> set (questionnaires s). \<not> has_key (q_chat_id r) (q_meeting_id r) x"
      "processed_meetings ?s' = processed_meetings s \<or>
       processed_meetings ?s' = processed_meetings s @ [q_meeting_id r]"
      by blast
    have fresh: "row_key r \<notin> row_key ` set (questionnaires s)"
      using new(2) by (auto simp: has_key_row_key row_key_def)
    have "distinct (map row_key (questionnaires ?s'))"
      using ok fresh by (simp add: new(1) consistent_def)
    moreover have "\<forall>meeting_id \<in> set (processed_meetings ?s').
        \<exists>x \<in> set (questionnaires ?s'). q_meeting_id x = meeting_id"
      using ok new(3) by (auto simp: new(1) consistent_def)
    ultimately show ?thesis
      by (simp add: consistent_def)
  qed
qed

lemma consistent_start_schedule:
  "consistent (questionnaires (start w schedule init_database))
     (processed_meetings (start w schedule init_database))"
proof -
  have "consistent (questionnaires init_database) (processed_meetings init_database)"
    by (simp add: consistent_def init_database_def)
  then show ?thesis
    by (rule preserves_schedule [where Q = consistent, OF consistent_process_meeting
          consistent_update_last_message_id consistent_start consistent_answer])
qed

lemma processed_meeting_skipped:
  assumes "m_id m = Inr meeting_id" and "is_meeting_processed meeting_id s"
  shows "questionnaires (snd (process_meeting w m s)) = questionnaires s \<and>
         processed_meetings (snd (process_meeting w m s)) = processed_meetings s \<and>
         (drop (length (trace s)) (trace (snd (process_meeting w m s))) = [] \<or>
          (\<exists>p r. drop (length (trace s)) (trace (snd (process_meeting w m s))) =
                   [NotionPageName p r]))"
  using assms
  by (auto simp: process_meeting_def andthen_def lift_def ret_def
      get_notion_page_name_def call_eq emit_fields is_meeting_processed_def
      split: sum.splits prod.splits)

lemma processed_meeting_created:
  assumes "m_id m = Inr meeting_id" and "m_chat_id m = Inr c"
    and "\<not> is_meeting_processed meeting_id s"
    and "fst (process_meeting w m s) = Inr ()"
  shows "one_row c meeting_id (questionnaires (snd (process_meeting w m s)))
           (processed_meetings (snd (process_meeting w m s)))"
proof -
  have absent: "\<forall>x \<in> set rows. \<not> has_key c meeting_id x \<Longrightarrow>
                filter (has_key c meeting_id) rows = []" for rows
    by (induction rows) simp_all
  show ?thesis
    using assms
    by (auto simp: process_meeting_def andthen_def lift_def ret_def one_row_def
        get_notion_page_name_def call_eq emit_fields save_questionnaire_def
        send_initial_message_def send_telegram_message_def update_last_message_id_def
        update_where_fields mark_meeting_processed_def is_meeting_processed_def
        update_absent absent has_key_row_key row_key_def
        split: sum.splits prod.splits option.splits if_splits)
qed

text \<open>
  C5. A meeting whose id is in \<^verbatim>\<open>processed_meetings\<close> is skipped by \<^verbatim>\<open>process_meeting\<close>: both
  tables stay as they are and the only event, if any, is the look-up of the mentor's name,
  so there is no insert, no send and no update. Once \<^verbatim>\<open>process_meeting\<close> has returned
  for a meeting that was not processed, its id is in the set and exactly one row has its
  (chat, meeting) key, after any number of cycles of the three loops, whatever Notion and
  Telegram deliver in them. And in every state that the bot reaches from the empty
  tables, no two rows have the same (chat, meeting) key and every processed meeting has
  a row.
\<close>

theorem processed_meeting_is_skipped_and_has_one_row:
  assumes "m_id m = Inr meeting_id" and "m_chat_id m = Inr c"
  shows "(is_meeting_processed meeting_id s \<longrightarrow>
            questionnaires (snd (process_meeting w m s)) = questionnaires s \<and>
            processed_meetings (snd (process_meeting w m s)) = processed_meetings s \<and>
            (drop (length (trace s)) (trace (snd (process_meeting w m s))) = [] \<or>
             (\<exists>p r. drop (length (trace s)) (trace (snd (process_meeting w m s))) =
                      [NotionPageName p r]))) \<and>
         (\<not> is_meeting_processed meeting_id s \<and> fst (process_meeting w m s) = Inr () \<longrightarrow>
            is_meeting_processed meeting_id
              (start w' schedule (snd (process_meeting w m s))) \<and>
            length (filter (has_key c meeting_id)
              (questionnaires (start w' schedule (snd (process_meeting w m s))))) = 1) \<and>
         consistent (questionnaires (start w' schedule init_database))
           (processed_meetings (start w' schedule init_database))"
proof -
  have skipped: "is_meeting_processed meeting_id s \<longrightarrow>
            questionnaires (snd (process_meeting w m s)) = questionnaires s \<and>
            processed_meetings (snd (process_meeting w m s)) = processed_meetings s \<and>
            (drop (length (trace s)) (trace (snd (process_meeting w m s))) = [] \<or>
             (\<exists>p r. drop (length (trace s)) (trace (snd (process_meeting w m s))) =
                      [NotionPageName p r]))"
    by (intro impI processed_meeting_skipped [OF assms(1)])
  have kept: "\<not> is_meeting_processed meeting_id s \<and> fst (process_meeting w m s) = Inr () \<longrightarrow>
            is_meeting_processed meeting_id
              (start w' schedule (snd (process_meeting w m s))) \<and>
            length (filter (has_key c meeting_id)
              (questionnaires (start w' schedule (snd (process_meeting w m s))))) = 1"
  proof
    assume a: "\<not> is_meeting_processed meeting_id s \<and> fst (process_meeting w m s) = Inr ()"
    have "one_row c meeting_id (questionnaires (snd (process_meeting w m s)))
            (processed_meetings (snd (process_meeting w m s)))"
      using a by (intro processed_meeting_created [OF assms]) simp_all
    then have "one_row c meeting_id
        (questionnaires (start w' schedule (snd (process_meeting w m s))))
        (processed_meetings (start w' schedule (snd (process_meeting w m s))))"
      by (rule one_row_start_schedule)
    then show "is_meeting_processed meeting_id
              (start w' schedule (snd (process_meeting w m s))) \<and>
            length (filter (has_key c meeting_id)
              (questionnaires (start w' schedule (snd (process_meeting w m s))))) = 1"
      by (simp add: one_row_def is_meeting_processed_def)
  qed
  show ?thesis
    using skipped kept consistent_start_schedule [of w' schedule] by (intro conjI)
qed

theorem processed_meeting_is_skipped_and_has_one_row_witness:
  "m_id sprint_review = Inr ''mid'' \<and> m_chat_id sprint_review = Inr ''123'' \<and>
   is_meeting_processed ''mid'' discovered \<and>
   questionnaires (snd (process_meeting reliable sprint_review discovered)) =
     questionnaires discovered \<and>
   processed_meetings (snd (process_meeting reliable sprint_review discovered)) =
     processed_meetings discovered \<and>
   \<not> is_meeting_processed ''mid'' init_database \<and>
   fst (process_meeting reliable sprint_review init_database) = Inr () \<and>
   is_meeting_processed ''mid''
     (start (notion_returns [sprint_review]) [NotionChecker, ReminderChecker, NotionChecker]
        (snd (process_meeting reliable sprint_review init_database))) \<and>
   length (filter (has_key ''123'' ''mid'')
     (questionnaires
        (start (notion_returns [sprint_review]) [NotionChecker, ReminderChecker, NotionChecker]
           (snd (process_meeting reliable sprint_review init_database))))) = 1"
proof -
  have a: "m_id sprint_review = Inr ''mid''" and b: "m_chat_id sprint_review = Inr ''123''"
    by (simp_all add: sprint_review_def)
  have p: "is_meeting_processed ''mid'' discovered"
    by (simp add: is_meeting_processed_def discovered_def)
  have n: "\<not> is_meeting_processed ''mid'' init_database \<and>
      fst (process_meeting reliable sprint_review init_database) = Inr ()"
    by code_simp
  note skipped = processed_meeting_is_skipped_and_has_one_row
    [OF a b, where s = discovered and w = reliable, THEN conjunct1, THEN mp, OF p]
  note kept = processed_meeting_is_skipped_and_has_one_row
    [OF a b, where s = init_database and w = reliable
       and w' = "notion_returns [sprint_review]"
       and schedule = "[NotionChecker, ReminderChecker, NotionChecker]",
     THEN conjunct2, THEN conjunct1, THEN mp, OF n]
  have s1: "questionnaires (snd (process_meeting reliable sprint_review discovered)) =
      questionnaires discovered"
    using skipped by (rule conjunct1)
  have s2: "processed_meetings (snd (process_meeting reliable sprint_review discovered)) =
      processed_meetings discovered"
    using skipped by (elim conjE)
  have n1: "\<not> is_meeting_processed ''mid'' init_database"
    and n2: "fst (process_meeting reliable sprint_review init_database) = Inr ()"
    using n by simp_all
  have k1: "is_meeting_processed ''mid''
     (start (notion_returns [sprint_review]) [NotionChecker, ReminderChecker, NotionChecker]
        (snd (process_meeting reliable sprint_review init_database)))"
    using kept by (rule conjunct1)
  have k2: "length (filter (has_key ''123'' ''mid'')
     (questionnaires
        (start (notion_returns [sprint_review]) [NotionChecker, ReminderChecker, NotionChecker]
           (snd (process_meeting reliable sprint_review init_database))))) = 1"
    using kept by (rule conjunct2)
  show ?thesis
    by (intro conjI a b p s1 s2 n1 n2 k1 k2)
qed

section \<open>A malformed meeting in a discovery cycle\<close>

lemma for_each_append:
  "for_each body (xs @ ys) = andthen (for_each body xs) (\<lambda>u. for_each body ys)"
proof (induction xs)
  case Nil
  show ?case by (simp add: fun_eq_iff andthen_ret)
next
  case (Cons x xs)
  then show ?case
    by (simp add: fun_eq_iff andthen_def split: prod.splits sum.splits)
qed

lemma shape_error_raises:
  assumes "shape_error m"
  shows "\<exists>e s'. process_meeting w m s = (Inl e, s') \<and>
                questionnaires s' = questionnaires s \<and>
                processed_meetings s' = processed_meetings s"
  using assms
  by (auto simp: shape_error_def process_meeting_def andthen_def lift_def
      get_notion_page_name_def call_eq emit_fields
      split: sum.splits prod.splits)

text \<open>
  C8, as the code has it. The \<^verbatim>\<open>try\<close> of \<^verbatim>\<open>run_notion_checker\<close> encloses the whole
  \<^verbatim>\<open>for\<close> loop. A meeting with a missing field ends the cycle: the meetings before it in
  the list have been processed, the meetings after it are not looked at (the tables are
  those left by the meetings before it, whatever follows), and the error is logged.
\<close>

theorem shape_error_ends_the_cycle:
  assumes "shape_error bad"
    and "w_query w (length (trace s)) = Inr (before @ bad # rest)"
  shows "let s0 = emit (NotionQuery (Inr (before @ bad # rest))) s;
             s1 = snd (for_each (process_meeting w) before s0);
             s' = notion_checker_cycle w s
         in questionnaires s' = questionnaires s1 \<and>
            processed_meetings s' = processed_meetings s1 \<and>
            (\<exists>e. last (trace s') = LogError e)"
proof -
  let ?s0 = "emit (NotionQuery (Inr (before @ bad # rest))) s"
  let ?pm = "process_meeting w"
  have fetch: "fetch_notion_meetings w s = (Inr (before @ bad # rest), ?s0)"
    using assms(2) by (simp add: fetch_notion_meetings_def call_eq)
  obtain r1 s1 where first: "for_each ?pm before ?s0 = (r1, s1)"
    by (cases "for_each ?pm before ?s0")
  obtain e s2 where bad: "?pm bad s1 = (Inl e, s2)"
    "questionnaires s2 = questionnaires s1" "processed_meetings s2 = processed_meetings s1"
    using shape_error_raises [OF assms(1)] by blast
  have "\<exists>e' sx. for_each ?pm (before @ bad # rest) ?s0 = (Inl e', sx) \<and>
                 questionnaires sx = questionnaires s1 \<and>
                 processed_meetings sx = processed_meetings s1"
    using first bad
    by (cases r1) (simp_all add: for_each_append andthen_def)
  then obtain e' sx where loop: "for_each ?pm (before @ bad # rest) ?s0 = (Inl e', sx)"
    "questionnaires sx = questionnaires s1" "processed_meetings sx = processed_meetings s1"
    by blast
  have "notion_checker_cycle w s = emit (LogError e') sx"
    using fetch loop(1) by (simp add: notion_checker_cycle_def try_except_def andthen_def)
  then show ?thesis
    using first loop(2,3) by (simp add: Let_def emit_fields)
qed

theorem shape_error_ends_the_cycle_witness:
  "shape_error broken \<and>
   w_query (notion_returns [broken, sprint_review]) (length (trace init_database)) =
     Inr ([] @ broken # [sprint_review]) \<and>
   questionnaires (notion_checker_cycle (notion_returns [broken, sprint_review]) init_database) =
     [] \<and>
   processed_meetings
     (notion_checker_cycle (notion_returns [broken, sprint_review]) init_database) = []"
proof -
  have b: "shape_error broken"
    by (simp add: shape_error_def broken_def sprint_review_def)
  have q: "w_query (notion_returns [broken, sprint_review]) (length (trace init_database)) =
             Inr ([] @ broken # [sprint_review])"
    by (simp add: notion_returns_def)
  from shape_error_ends_the_cycle [OF b q]
  have "questionnaires
          (notion_checker_cycle (notion_returns [broken, sprint_review]) init_database) = []"
    and "processed_meetings
          (notion_checker_cycle (notion_returns [broken, sprint_review]) init_database) = []"
    by (simp_all add: Let_def ret_def emit_fields init_database_def)
  with b q show ?thesis
    by (intro conjI)
qed

text \<open>
  C8 as stated fails: a cycle that receives the well-formed meeting alone creates its
  questionnaire, a cycle that receives it behind a malformed record does not.
\<close>

theorem meeting_after_malformed_one_is_skipped:
  "map q_meeting_id
     (questionnaires (notion_checker_cycle (notion_returns [sprint_review]) init_database)) =
     [''mid''] \<and>
   questionnaires (notion_checker_cycle (notion_returns [broken, sprint_review]) init_database) =
     [] \<and>
   processed_meetings
     (notion_checker_cycle (notion_returns [broken, sprint_review]) init_database) = []"
  by code_simp

section \<open>Malformed and unrecognized events\<close>

lemma handle_callback_query_table:
  "handle_callback_query w cq s =
     (case cq_data cq of
        None \<Rightarrow> (Inl KeyError, s)
      | Some payload \<Rightarrow>
          (let data = split_comma payload in
           if hd data = ''start'' then
             (if length data < 2 then (Inl IndexError, s)
              else case cq_message_id cq of
                     None \<Rightarrow> (Inl KeyError, s)
                   | Some message_id \<Rightarrow>
                       start_questionnaire w (data ! 1)
                         (if 2 < length data then data ! 2 else []) message_id s)
           else if hd data = ''answer'' then
             (if length data < 4 then (Inl IndexError, s)
              else case py_int (data ! 3) of
                     Inl e \<Rightarrow> (Inl ValueError, s)
                   | Inr question_num \<Rightarrow>
                       if length data < 5 then (Inl IndexError, s)
                       else case py_int (data ! 4) of
                              Inl e \<Rightarrow> (Inl ValueError, s)
                            | Inr points \<Rightarrow>
                                (case cq_message_id cq of
                                   None \<Rightarrow> (Inl KeyError, s)
                                 | Some message_id \<Rightarrow>
                                     process_answer w (data ! 1) question_num points
                                       message_id s))
           else (Inr (), s)))"
proof (cases "cq_data cq")
  case None
  then show ?thesis
    by (simp add: handle_callback_query_def required_def andthen_lift_Inl)
next
  case (Some payload)
  let ?data = "split_comma payload"
  have ne: "?data \<noteq> []" by (rule split_comma_not_Nil)
  have hd0: "?data ! 0 = hd ?data" using ne by (simp add: hd_conv_nth)
  show ?thesis
  proof (cases "hd ?data = ''start''")
    case True
    show ?thesis
      using Some True ne hd0
      by (cases "cq_message_id cq")
        (auto simp: handle_callback_query_def Let_def required_def andthen_lift_Inl
          andthen_lift_Inr andthen_ret py_index_numerals)
  next
    case notstart: False
    show ?thesis
    proof (cases "hd ?data = ''answer''")
      case True
      show ?thesis
        using Some True ne hd0 py_int_cases [of "?data ! 3"] py_int_cases [of "?data ! 4"]
        by (cases "cq_message_id cq")
          (auto simp: handle_callback_query_def Let_def required_def andthen_lift_Inl
            andthen_lift_Inr py_index_numerals)
    next
      case False
      then show ?thesis
        using Some notstart ne hd0
        by (simp add: handle_callback_query_def Let_def required_def andthen_lift_Inl
            andthen_lift_Inr ret_def py_index_numerals)
    qed
  qed
qed

lemma handle_update_callback:
  "handle_update w \<lparr>update_id = Some uid, update_body = CallbackQuery cq\<rparr> s =
     handle_callback_query w cq (s\<lparr>offset := uid + 1\<rparr>)"
  "handle_update w \<lparr>update_id = None, update_body = CallbackQuery cq\<rparr> s = (Inl KeyError, s)"
  by (simp_all add: handle_update_def required_def andthen_def lift_def)

text \<open>
  C9, as the code has it. The handler ignores an event only when its action is neither
  \<^verbatim>\<open>start\<close> nor \<^verbatim>\<open>answer\<close>. Every other shape that it cannot handle makes it raise, and
  only the \<^verbatim>\<open>except\<close> of the polling loop catches that: \<^verbatim>\<open>KeyError\<close> for a callback
  without payload or (once the fields have been read) without message, \<^verbatim>\<open>IndexError\<close>
  for a start payload without chat id and for an answer payload with fewer than five
  fields (with exactly four, only if the question index is numeric), \<^verbatim>\<open>ValueError\<close> for
  a question index or a score that \<^verbatim>\<open>int()\<close> rejects. In each of these cases the state is
  left as it was: tables, offset and trace. All other payloads are handled: a start
  payload with at least a chat id (a meeting name is not needed) by
  \<^verbatim>\<open>start_questionnaire\<close>, an answer payload with five or more fields, the fourth and
  fifth numeric, by \<^verbatim>\<open>process_answer\<close> (further fields, and the meeting id, are not
  used). The polling loop advances its offset past an update before it hands the
  callback to the handler.
\<close>

theorem malformed_event_changes_no_state:
  "let data = split_comma payload;
       outcome = handle_callback_query w \<lparr>cq_data = Some payload, cq_message_id = m\<rparr> s
   in handle_callback_query w \<lparr>cq_data = None, cq_message_id = m\<rparr> s = (Inl KeyError, s) \<and>
      (hd data \<noteq> ''start'' \<and> hd data \<noteq> ''answer'' \<longrightarrow> outcome = (Inr (), s)) \<and>
      (hd data = ''start'' \<and> length data < 2 \<longrightarrow> outcome = (Inl IndexError, s)) \<and>
      (hd data = ''start'' \<and> 2 \<le> length data \<and> m = None \<longrightarrow>
         outcome = (Inl KeyError, s)) \<and>
      (hd data = ''answer'' \<and> length data < 4 \<longrightarrow> outcome = (Inl IndexError, s)) \<and>
      (hd data = ''answer'' \<and> 4 \<le> length data \<and> isl (py_int (data ! 3)) \<longrightarrow>
         outcome = (Inl ValueError, s)) \<and>
      (hd data = ''answer'' \<and> length data = 4 \<and> \<not> isl (py_int (data ! 3)) \<longrightarrow>
         outcome = (Inl IndexError, s)) \<and>
      (hd data = ''answer'' \<and> 5 \<le> length data \<and> \<not> isl (py_int (data ! 3)) \<and>
       isl (py_int (data ! 4)) \<longrightarrow> outcome = (Inl ValueError, s)) \<and>
      (hd data = ''answer'' \<and> 5 \<le> length data \<and> \<not> isl (py_int (data ! 3)) \<and>
       \<not> isl (py_int (data ! 4)) \<and> m = None \<longrightarrow> outcome = (Inl KeyError, s)) \<and>
      (hd data = ''start'' \<and> 2 \<le> length data \<and> m = Some message_id \<longrightarrow>
         outcome = start_questionnaire w (data ! 1) (if 2 < length data then data ! 2 else [])
                     message_id s) \<and>
      (hd data = ''answer'' \<and> 5 \<le> length data \<and> py_int (data ! 3) = Inr question_num \<and>
       py_int (data ! 4) = Inr points \<and> m = Some message_id \<longrightarrow>
         outcome = process_answer w (data ! 1) question_num points message_id s) \<and>
      handle_update w \<lparr>update_id = Some uid, update_body = CallbackQuery cq\<rparr> s =
        handle_callback_query w cq (s\<lparr>offset := uid + 1\<rparr>) \<and>
      handle_update w \<lparr>update_id = None, update_body = CallbackQuery cq\<rparr> s =
        (Inl KeyError, s)"
proof -
  let ?data = "split_comma payload"
  let ?outcome = "handle_callback_query w \<lparr>cq_data = Some payload, cq_message_id = m\<rparr> s"
  note table = handle_callback_query_table
    [of w "\<lparr>cq_data = Some payload, cq_message_id = m\<rparr>" s]
  have c0: "handle_callback_query w \<lparr>cq_data = None, cq_message_id = m\<rparr> s = (Inl KeyError, s)"
    by (simp add: handle_callback_query_table)
  have c1: "hd ?data \<noteq> ''start'' \<and> hd ?data \<noteq> ''answer'' \<longrightarrow> ?outcome = (Inr (), s)"
    by (simp add: table Let_def)
  have c2: "hd ?data = ''start'' \<and> length ?data < 2 \<longrightarrow> ?outcome = (Inl IndexError, s)"
    by (simp add: table Let_def)
  have c3: "hd ?data = ''start'' \<and> 2 \<le> length ?data \<and> m = None \<longrightarrow>
      ?outcome = (Inl KeyError, s)"
    by (auto simp: handle_callback_query_table Let_def)
  have c4: "hd ?data = ''answer'' \<and> length ?data < 4 \<longrightarrow> ?outcome = (Inl IndexError, s)"
    by (simp add: table Let_def)
  have c5: "hd ?data = ''answer'' \<and> 4 \<le> length ?data \<and> isl (py_int (?data ! 3)) \<longrightarrow>
      ?outcome = (Inl ValueError, s)"
    by (auto simp: table Let_def split: sum.splits)
  have c6: "hd ?data = ''answer'' \<and> length ?data = 4 \<and> \<not> isl (py_int (?data ! 3)) \<longrightarrow>
      ?outcome = (Inl IndexError, s)"
    by (auto simp: table Let_def split: sum.splits)
  have c7: "hd ?data = ''answer'' \<and> 5 \<le> length ?data \<and> \<not> isl (py_int (?data ! 3)) \<and>
      isl (py_int (?data ! 4)) \<longrightarrow> ?outcome = (Inl ValueError, s)"
    by (auto simp: table Let_def split: sum.splits)
  have c8: "hd ?data = ''answer'' \<and> 5 \<le> length ?data \<and> \<not> isl (py_int (?data ! 3)) \<and>
      \<not> isl (py_int (?data ! 4)) \<and> m = None \<longrightarrow> ?outcome = (Inl KeyError, s)"
    by (auto simp: handle_callback_query_table Let_def split: sum.splits)
  have c9: "hd ?data = ''start'' \<and> 2 \<le> length ?data \<and> m = Some message_id \<longrightarrow>
      ?outcome = start_questionnaire w (?data ! 1)
                   (if 2 < length ?data then ?data ! 2 else []) message_id s"
    by (auto simp: handle_callback_query_table Let_def)
  have c10: "hd ?data = ''answer'' \<and> 5 \<le> length ?data \<and>
      py_int (?data ! 3) = Inr question_num \<and> py_int (?data ! 4) = Inr points \<and>
      m = Some message_id \<longrightarrow>
      ?outcome = process_answer w (?data ! 1) question_num points message_id s"
    by (auto simp: handle_callback_query_table Let_def)
  note c11 = handle_update_callback
  show ?thesis
    unfolding Let_def
    by (intro conjI c0 c1 c2 c3 c4 c5 c6 c7 c8 c9 c10 c11)
qed

theorem malformed_event_changes_no_state_witness:
  "hd (split_comma ''answer,123,mid,x,5'') = ''answer'' \<and>
   4 \<le> length (split_comma ''answer,123,mid,x,5'') \<and>
   isl (py_int (split_comma ''answer,123,mid,x,5'' ! 3)) \<and>
   handle_callback_query reliable
     \<lparr>cq_data = Some ''answer,123,mid,x,5'', cq_message_id = Some 2\<rparr> started =
     (Inl ValueError, started) \<and>
   hd (split_comma ''later,123'') \<noteq> ''start'' \<and> hd (split_comma ''later,123'') \<noteq> ''answer'' \<and>
   handle_callback_query reliable
     \<lparr>cq_data = Some ''later,123'', cq_message_id = Some 2\<rparr> started = (Inr (), started)"
proof -
  have h: "hd (split_comma ''answer,123,mid,x,5'') = ''answer'' \<and>
      4 \<le> length (split_comma ''answer,123,mid,x,5'') \<and>
      isl (py_int (split_comma ''answer,123,mid,x,5'' ! 3))"
    by code_simp
  have g: "hd (split_comma ''later,123'') \<noteq> ''start'' \<and>
      hd (split_comma ''later,123'') \<noteq> ''answer''"
    by code_simp
  note t1 = malformed_event_changes_no_state
    [of "''answer,123,mid,x,5''" reliable "Some 2" started 2 1 5 0
       "\<lparr>cq_data = None, cq_message_id = None\<rparr>", unfolded Let_def]
  note t2 = malformed_event_changes_no_state
    [of "''later,123''" reliable "Some 2" started 2 1 5 0
       "\<lparr>cq_data = None, cq_message_id = None\<rparr>", unfolded Let_def]
  have v: "hd (split_comma ''answer,123,mid,x,5'') = ''answer'' \<and>
      4 \<le> length (split_comma ''answer,123,mid,x,5'') \<and>
      isl (py_int (split_comma ''answer,123,mid,x,5'' ! 3)) \<longrightarrow>
      handle_callback_query reliable
        \<lparr>cq_data = Some ''answer,123,mid,x,5'', cq_message_id = Some 2\<rparr> started =
        (Inl ValueError, started)"
    using t1 by (elim conjE)
  have i: "hd (split_comma ''later,123'') \<noteq> ''start'' \<and>
      hd (split_comma ''later,123'') \<noteq> ''answer'' \<longrightarrow>
      handle_callback_query reliable
        \<lparr>cq_data = Some ''later,123'', cq_message_id = Some 2\<rparr> started = (Inr (), started)"
    using t2 by (elim conjE)
  from v h have "handle_callback_query reliable
        \<lparr>cq_data = Some ''answer,123,mid,x,5'', cq_message_id = Some 2\<rparr> started =
        (Inl ValueError, started)"
    by (rule mp)
  moreover from i g have "handle_callback_query reliable
        \<lparr>cq_data = Some ''later,123'', cq_message_id = Some 2\<rparr> started = (Inr (), started)"
    by (rule mp)
  ultimately show ?thesis
    using h g by (intro conjI) (elim conjE, assumption)+
qed

text \<open>
  C9 as stated fails: an answer payload with three fields is not ignored, it makes the
  handler raise an index fault.
\<close>

theorem short_answer_payload_raises_index_error:
  "handle_callback_query reliable \<lparr>cq_data = Some ''answer,123,mid'', cq_message_id = Some 2\<rparr>
     started = (Inl IndexError, started)"
  by code_simp

section \<open>Start events and the meeting name\<close>

lemma hd_split_comma: "hd (split_comma s) = takeWhile (\<lambda>x. x \<noteq> CHR '','') s"
proof (induction s)
  case Nil
  then show ?case by simp
next
  case (Cons c cs)
  obtain w ws where w: "split_comma cs = w # ws"
    using split_comma_not_Nil [of cs] by (cases "split_comma cs") auto
  with Cons show ?case by simp
qed

lemma length_split_comma:
  "length (split_comma s) = Suc (length (filter (\<lambda>x. x = CHR '','') s))"
proof (induction s)
  case Nil
  then show ?case by simp
next
  case (Cons c cs)
  obtain w ws where w: "split_comma cs = w # ws"
    using split_comma_not_Nil [of cs] by (cases "split_comma cs") auto
  with Cons show ?case by simp
qed

lemma takeWhile_before_comma:
  "takeWhile (\<lambda>x. x \<noteq> CHR '','') (c @ CHR '','' # n) = takeWhile (\<lambda>x. x \<noteq> CHR '','') c"
  by (induction c) simp_all

lemma split_start_payload:
  "split_comma (''start,'' @ rest) = ''start'' # split_comma rest"
  by simp

lemma start_questionnaire_name:
  "start_questionnaire w chat_id name1 i s = start_questionnaire w chat_id name2 i s"
  by (simp add: start_questionnaire_def)

lemma handle_start_fields:
  assumes "split_comma payload = ''start'' # f # g # gs"
  shows "handle_callback_query w \<lparr>cq_data = Some payload, cq_message_id = m\<rparr> s =
         (case m of
            None \<Rightarrow> (Inl KeyError, s)
          | Some i \<Rightarrow> start_questionnaire w f g i s)"
proof -
  have idx: "py_index (''start'' # f # g # gs) 0 = Inr ''start''"
    "py_index (''start'' # f # g # gs) 1 = Inr f"
    "py_index (''start'' # f # g # gs) 2 = Inr g"
    by (simp_all add: py_index_def)
  show ?thesis
    unfolding handle_callback_query_def
    by (cases m)
      (simp_all add: assms idx Let_def required_def andthen_lift_Inr andthen_lift_Inl)
qed

lemma handle_start_payload:
  "handle_callback_query w
     \<lparr>cq_data = Some (''start,'' @ chat_id @ '','' @ meeting_name), cq_message_id = m\<rparr> s =
   (case m of
      None \<Rightarrow> (Inl KeyError, s)
    | Some i \<Rightarrow> start_questionnaire w (takeWhile (\<lambda>x. x \<noteq> CHR '','') chat_id) [] i s)"
proof -
  let ?rest = "chat_id @ CHR '','' # meeting_name"
  obtain f fs where rest: "split_comma ?rest = f # fs"
    using split_comma_not_Nil [of ?rest] by (cases "split_comma ?rest") auto
  have f: "f = takeWhile (\<lambda>x. x \<noteq> CHR '','') chat_id"
    using hd_split_comma [of ?rest] rest by (simp add: takeWhile_before_comma)
  have "length (split_comma ?rest) \<ge> 2"
    by (simp add: length_split_comma)
  then obtain g gs where fs: "fs = g # gs"
    using rest by (cases fs) auto
  have data: "split_comma (''start,'' @ chat_id @ '','' @ meeting_name) = ''start'' # f # g # gs"
    using rest fs by simp
  show ?thesis
    unfolding handle_start_fields [OF data] f
    by (cases m) (simp_all add: start_questionnaire_name [of w _ g _ s "[]"])
qed

text \<open>
  C10. Two start events that differ only in the meeting name of their payload are handled
  alike: result, tables and trace are the same. \<^verbatim>\<open>start_questionnaire\<close> never reads its
  \<^verbatim>\<open>meeting_name\<close> argument; the questionnaire it starts is, of the pending ones of the
  chat, the one with the least meeting id, and its meeting id comes from that row.
\<close>

theorem start_ignores_meeting_name:
  "handle_callback_query w
     \<lparr>cq_data = Some (''start,'' @ chat_id @ '','' @ name1), cq_message_id = m\<rparr> s =
   handle_callback_query w
     \<lparr>cq_data = Some (''start,'' @ chat_id @ '','' @ name2), cq_message_id = m\<rparr> s \<and>
   start_questionnaire w chat_id name1 i s = start_questionnaire w chat_id name2 i s \<and>
   questionnaires (snd (start_questionnaire w chat_id name1 i s)) =
     (case select_chat_status chat_id Pending (questionnaires s) of
        None \<Rightarrow> questionnaires s
      | Some row \<Rightarrow>
          map (\<lambda>r. if has_key chat_id (q_meeting_id row) r then start_update r else r)
              (questionnaires s))"
  by (simp only: handle_start_payload start_questionnaire_table
      start_questionnaire_name [of w chat_id name1 i s name2] simp_thms)

end
